theory Spec2Isabelle
  imports Complex_Main "HOL-Library.Word"
begin

section \<open>Data model\<close>

text \<open>
  Go's \<open>int\<close> and \<open>time.Duration\<close> (an \<open>int64\<close> of nanoseconds) on a 64-bit platform:
  64-bit words, read as two's complement with \<open>sint\<close>; \<open>+\<close> and \<open>*\<close> wrap around.
\<close>

type_synonym go_int = "64 word"
type_synonym Duration = "64 word"

text \<open>\<open>type attributeConfig struct { Name string; Cardinality int }\<close>\<close>

record attributeConfig =
  Name :: string
  Cardinality :: go_int

text \<open>\<open>type config struct { Metrics, Interval, Services int; Attributes []attributeConfig }\<close>\<close>

record config =
  Metrics :: go_int
  Interval :: go_int
  Services :: go_int
  Attributes :: "attributeConfig list"

text \<open>An \<open>attribute.KeyValue\<close> built by \<open>attribute.String(key, value)\<close>.\<close>

type_synonym KeyValue = "string \<times> string"

definition attribute_String :: "string \<Rightarrow> string \<Rightarrow> KeyValue" where
  "attribute_String k v = (k, v)"

section \<open>Iterators\<close>

text \<open>
  An \<open>iter.Seq[V]\<close> is a function \<open>func(yield func(V) bool)\<close>. The callback's effect on its
  consumer is made explicit: \<open>yield\<close> takes the consumer's state and returns its boolean
  together with the new state; running the sequence threads that state through every call.
  A callback of this type returns on every call; callbacks that can panic, such as the one
  that the compiler builds from a \<open>for ... range\<close> loop, come further down.
\<close>

type_synonym ('a, 's) yield = "'a \<Rightarrow> 's \<Rightarrow> bool \<times> 's"
type_synonym ('a, 's) Seq = "('a, 's) yield \<Rightarrow> 's \<Rightarrow> 's"

text \<open>\<open>for i := range n\<close> over an \<open>int\<close>: \<open>i = 0, ..., n - 1\<close>, no iteration when \<open>n \<le> 0\<close>.\<close>

definition range_int :: "go_int \<Rightarrow> nat list" where
  "range_int n = [0..<nat (sint n)]"

text \<open>
  \<open>fmt.Sprintf("%0wd", i)\<close> for \<open>i \<ge> 0\<close> (the only values a \<open>range\<close> produces): the decimal
  digits of \<open>i\<close>, padded on the left with zeros up to the minimum width \<open>w\<close>.
\<close>

definition digit_char :: "nat \<Rightarrow> char" where
  "digit_char d = ''0123456789'' ! d"

fun decimal :: "nat \<Rightarrow> string" where
  "decimal n = (if n < 10 then [digit_char n] else decimal (n div 10) @ [digit_char (n mod 10)])"

declare decimal.simps [simp del]

definition Sprintf_0d :: "nat \<Rightarrow> nat \<Rightarrow> string" where
  "Sprintf_0d w n = replicate (w - length (decimal n)) (CHR ''0'') @ decimal n"

text \<open>
  \<open>iterateAttributes\<close> (cmd/firegen/main.go, lines 225-242). The inner
  \<open>for recAttrs := range iterateAttributes(attrConfigs[1:])\<close> runs the recursive sequence with
  the loop body as its callback; the body never breaks, so that callback answers \<open>true\<close>.
  The boolean returned by the outer \<open>yield\<close> is dropped in both branches, as in the source.
  Every slice handed to \<open>yield\<close> is newly allocated (\<open>attrs\<close> is built in each iteration and
  cloned before \<open>recAttrs\<close> is appended), so a list stands for it:
  \<open>append(slices.Clone(attrs), recAttrs...)\<close> is \<open>attrs @ recAttrs\<close>.
\<close>

fun iterateAttributes :: "attributeConfig list \<Rightarrow> (KeyValue list, 's) Seq" where
  "iterateAttributes [] yield s = s"
| "iterateAttributes (c # rest) yield s =
     foldl (\<lambda>s i.
        let attr = attribute_String (Name c) (Sprintf_0d 9 i);
            attrs = [attr]
        in if length (c # rest) > 1
           then iterateAttributes rest (\<lambda>recAttrs s'. (True, snd (yield (attrs @ recAttrs) s'))) s
           else snd (yield attrs s))
       s (range_int (Cardinality c))"

text \<open>\<open>slices.Collect\<close>: append every yielded value to a fresh slice, always answering \<open>true\<close>.\<close>

definition slices_Collect :: "('a, 'a list) Seq \<Rightarrow> 'a list" where
  "slices_Collect seq = seq (\<lambda>v acc. (True, acc @ [v])) []"

text \<open>
  The sequence as a list, for stating results: the combinations in the order in which
  \<open>iterateAttributes\<close> hands them to its callback (lemma \<open>iterateAttributes_foldl\<close>).
\<close>

fun combos :: "attributeConfig list \<Rightarrow> KeyValue list list" where
  "combos [] = []"
| "combos (c # rest) =
     concat (map (\<lambda>i. if rest = [] then [[attribute_String (Name c) (Sprintf_0d 9 i)]]
                       else map (\<lambda>r. attribute_String (Name c) (Sprintf_0d 9 i) # r) (combos rest))
                 (range_int (Cardinality c)))"

text \<open>
  The values a callback received, in order: the callback \<open>yield\<close> is run on its own state,
  and every argument it is called with is logged beside it.
\<close>

definition yielded :: "('a, 's \<times> 'a list) Seq \<Rightarrow> ('a, 's) yield \<Rightarrow> 's \<Rightarrow> 'a list" where
  "yielded seq yield s =
     snd (seq (\<lambda>v (s, calls). let (b, s') = yield v s in (b, (s', calls @ [v]))) (s, []))"

text \<open>
  Mixed-radix counting, most significant digit first: the digits of \<open>k\<close> for the radices
  \<open>rs\<close>, the last radix being the one that cycles fastest.
\<close>

fun odometer_digits :: "nat list \<Rightarrow> nat \<Rightarrow> nat list" where
  "odometer_digits [] k = []"
| "odometer_digits (r # rs) k = (k div prod_list rs) mod r # odometer_digits rs k"

definition cardinalities :: "attributeConfig list \<Rightarrow> nat list" where
  "cardinalities defs = map (\<lambda>d. nat (sint (Cardinality d))) defs"


text \<open>The combination that the digits \<open>vs\<close> stand for: one pair per definition, in order.\<close>

definition render :: "attributeConfig list \<Rightarrow> nat list \<Rightarrow> KeyValue list" where
  "render defs digits = map2 (\<lambda>d v. attribute_String (Name d) (Sprintf_0d 9 v)) defs digits"

text \<open>The attribute definitions of \<open>TestIterateAttributes\<close>.\<close>

definition scenario :: "attributeConfig list" where
  "scenario = [\<lparr>Name = ''one'', Cardinality = 1\<rparr>, \<lparr>Name = ''two'', Cardinality = 2\<rparr>,
               \<lparr>Name = ''three'', Cardinality = 3\<rparr>]"

text \<open>Reading a decimal string back, to show that \<open>Sprintf_0d\<close> loses nothing.\<close>

definition digit_val :: "char \<Rightarrow> nat" where
  "digit_val c = of_char c - 48"

definition undecimal :: "string \<Rightarrow> nat" where
  "undecimal s = foldl (\<lambda>a c. 10 * a + digit_val c) 0 s"









section \<open>Start-up: configuration and the series catalogue\<close>

text \<open>Go's built-in \<open>max\<close> on two \<open>int\<close>s compares them as signed numbers.\<close>

definition go_max :: "go_int \<Rightarrow> go_int \<Rightarrow> go_int" where
  "go_max a b = (if a <s b then b else a)"

text \<open>
  The clamping of \<open>main\<close> (lines 100-105): metrics, interval, services and every
  cardinality are raised to at least 1. The number of attribute definitions is not touched.
\<close>

definition clamp :: "config \<Rightarrow> config" where
  "clamp cfg = cfg
     \<lparr> Metrics := go_max 1 (Metrics cfg),
       Interval := go_max 1 (Interval cfg),
       Services := go_max 1 (Services cfg),
       Attributes := map (\<lambda>a. a\<lparr>Cardinality := go_max 1 (Cardinality a)\<rparr>) (Attributes cfg) \<rparr>"

text \<open>
  The catalogue \<open>main\<close> computes once (lines 111-121) and the values it logs
  (lines 126-128). The products are products of \<open>int\<close>s, so they wrap around.
\<close>

definition metricNames :: "config \<Rightarrow> string list" where
  "metricNames cfg =
     slices_Collect (\<lambda>yield s.
       foldl (\<lambda>s i. snd (yield (''metric-'' @ Sprintf_0d 4 i) s)) s (range_int (Metrics cfg)))"

definition allAttributes :: "config \<Rightarrow> KeyValue list list" where
  "allAttributes cfg = slices_Collect (iterateAttributes (Attributes cfg))"

definition attrCardinality :: "config \<Rightarrow> go_int" where
  "attrCardinality cfg =
     foldl (\<lambda>attrCardinality attrConfig. attrCardinality * Cardinality attrConfig) 1 (Attributes cfg)"

definition seriesPerService :: "config \<Rightarrow> go_int" where
  "seriesPerService cfg = Metrics cfg * attrCardinality cfg"

definition totalSeries :: "config \<Rightarrow> go_int" where
  "totalSeries cfg = Services cfg * Metrics cfg * attrCardinality cfg"

text \<open>\<open>main\<close> starts one \<open>generate\<close> per \<open>i\<close> in \<open>range cfg.Services\<close>, under this name.\<close>

definition serviceName :: "nat \<Rightarrow> string" where
  "serviceName i = ''service-'' @ Sprintf_0d 4 i"

text \<open>
  Step 1 of a tick (lines 181-185): one \<open>Record\<close> call per gauge and per attribute
  combination, gauges in the outer loop. A gauge is identified by its metric name; the
  recorded value, a random number, is left out.
\<close>

definition record_calls :: "string list \<Rightarrow> KeyValue list list \<Rightarrow> (string \<times> KeyValue list) list" where
  "record_calls gauges allAttrs =
     concat (map (\<lambda>gauge. map (\<lambda>attributes. (gauge, attributes)) allAttrs) gauges)"

text \<open>
  The series of the whole process: what the services record in one tick each, tagged with
  the name of the service. A series is the triple of the data model: service, metric name
  and the ordered list of attribute pairs. (What the metrics SDK makes of a combination,
  for instance of two attributes of the same name, is outside the source.)
\<close>

definition all_series :: "config \<Rightarrow> (string \<times> string \<times> KeyValue list) list" where
  "all_series cfg =
     concat (map (\<lambda>i. map (\<lambda>(gauge, attributes). (serviceName i, gauge, attributes))
                          (record_calls (metricNames cfg) (allAttributes cfg)))
                 (range_int (Services cfg)))"

text \<open>
  The product \<open>Services \<times> Metrics \<times> \<Prod> cardinality\<close> of a configuration as a number,
  without wrap-around.
\<close>

definition series_product :: "config \<Rightarrow> int" where
  "series_product cfg = sint (Services cfg) * sint (Metrics cfg)
      * prod_list (map (\<lambda>d. sint (Cardinality d)) (Attributes cfg))"

text \<open>The configuration of the README.\<close>

definition readme_config :: config where
  "readme_config = \<lparr> Metrics = 2, Interval = 10, Services = 2,
     Attributes = [\<lparr>Name = ''region'', Cardinality = 2\<rparr>, \<lparr>Name = ''cluster'', Cardinality = 1\<rparr>,
                   \<lparr>Name = ''pod'', Cardinality = 3\<rparr>] \<rparr>"

section \<open>The per-service scheduler\<close>

text \<open>\<open>time.Second\<close>, in nanoseconds; \<open>interval\<close> of \<open>main\<close> (line 106), a product that wraps.\<close>

definition Second :: Duration where
  "Second = 1000000000"

definition interval_of :: "config \<Rightarrow> Duration" where
  "interval_of cfg = Interval cfg * Second"

text \<open>
  Go's \<open>/\<close> on integers truncates towards zero. (Division by zero panics; the only divisor
  below is the constant 4.)
\<close>

definition go_quot :: "go_int \<Rightarrow> go_int \<Rightarrow> go_int" where
  "go_quot a b = word_of_int (sgn (sint a) * sgn (sint b) * (\<bar>sint a\<bar> div \<bar>sint b\<bar>))"

text \<open>
  The errors a tick can meet: \<open>context.DeadlineExceeded\<close>, \<open>context.Canceled\<close>, any other
  error, and an error wrapping another. \<open>errors.Is\<close> follows the chain of wrapped errors.
\<close>

datatype go_error = DeadlineExceeded | Canceled | Other string | Wrap string go_error

fun errors_Is :: "go_error \<Rightarrow> go_error \<Rightarrow> bool" where
  "errors_Is (Wrap msg err) target = (Wrap msg err = target \<or> errors_Is err target)"
| "errors_Is err target = (err = target)"

definition is_DeadlineExceeded :: "go_error option \<Rightarrow> bool" where
  "is_DeadlineExceeded err = (case err of None \<Rightarrow> False | Some e \<Rightarrow> errors_Is e DeadlineExceeded)"

text \<open>
  The log lines of \<open>generate\<close>, each with the arguments of its format:
  \<open>Failed to collect metrics for %s: %v\<close> (by \<open>log.Fatalf\<close>),
  \<open>Timeout after %s exporting metrics for %s\<close>, \<open>Failed to export metrics for %s: %v\<close> and
  \<open>Exported %d measurements for %s in %dms\<close>.
\<close>

datatype log_line =
    Failed_to_collect string go_error
  | Timeout_after Duration string
  | Failed_to_export string go_error
  | Exported nat string int

text \<open>
  What a worker does, in the order in which it does it. \<open>Signalled\<close> marks the moment at which
  the context of \<open>signal.NotifyContext\<close> is cancelled, and \<open>Tick_begins\<close> a call of \<open>tick()\<close>.
\<close>

datatype trace_item =
    Signalled
  | Tick_begins
  | Record_call string "KeyValue list"
  | Collect_call
  | Export_call Duration
  | Printf log_line
  | Fatalf log_line
  | NewTicker Duration
  | Ticker_Stop
  | Provider_Shutdown
  | Exporter_Shutdown

text \<open>
  The export deadline: \<open>exportTimeout := time.Second\<close> in cmd/firegen/main.go (line 178), and
  \<open>exportTimeout := interval / 4\<close> in the other version of the file (part_001, line 162).
\<close>

definition exportTimeout :: Duration where
  "exportTimeout = Second"

definition exportTimeout_part_001 :: "Duration \<Rightarrow> Duration" where
  "exportTimeout_part_001 interval = go_quot interval 4"

text \<open>
  The default the specification describes, in its words: one quarter of the interval, with
  a floor of one second.
\<close>

definition spec_default_deadline :: "Duration \<Rightarrow> Duration" where
  "spec_default_deadline interval = go_max (go_quot interval 4) Second"

text \<open>
  The parameters of \<open>generate\<close> once its set-up has succeeded (exporter, resource and gauges
  created; a failure there is fatal before the first tick). A gauge is identified by its
  metric name.
\<close>

record worker =
  w_serviceName :: string
  w_gauges :: "string list"
  w_allAttributes :: "KeyValue list list"
  w_offset :: Duration
  w_interval :: Duration

text \<open>
  What the outside world decides during one tick: the results of \<open>reader.Collect\<close> and of
  \<open>exporter.Export\<close>, the duration measured around the export, and whether the signal
  arrives while the export is in flight, that is before \<open>ctx.Err()\<close> is read.
\<close>

record tick_env =
  collect_err :: "go_error option"
  export_err :: "go_error option"
  export_ms :: int
  signal_during_export :: bool

text \<open>
  The handling of the export's result (lines 199-207), an \<open>if\<close> chain in this order; \<open>ctx_err\<close>
  is \<open>ctx.Err() != nil\<close>.
\<close>

definition export_outcome :: "worker \<Rightarrow> bool \<Rightarrow> go_error option \<Rightarrow> int \<Rightarrow> trace_item list" where
  "export_outcome w ctx_err err td_ms =
     (if is_DeadlineExceeded err then [Printf (Timeout_after exportTimeout (w_serviceName w))]
      else if ctx_err then []
      else case err of
             Some e \<Rightarrow> [Printf (Failed_to_export (w_serviceName w) e)]
           | None \<Rightarrow> [Printf (Exported (length (w_gauges w)) (w_serviceName w) td_ms)])"

text \<open>
  One call of \<open>tick()\<close> (lines 179-208): record, collect, export. \<open>log.Fatalf\<close> prints and
  exits the process with status 1.
\<close>

datatype tick_result = Returned | Exit_1

definition tick :: "worker \<Rightarrow> bool \<Rightarrow> tick_env \<Rightarrow> trace_item list \<times> tick_result" where
  "tick w ctx_done env =
     (let step1 = map (\<lambda>(gauge, attributes). Record_call gauge attributes)
                      (record_calls (w_gauges w) (w_allAttributes w))
      in case collect_err env of
           Some err \<Rightarrow>
             (step1 @ [Collect_call, Fatalf (Failed_to_collect (w_serviceName w) err)], Exit_1)
         | None \<Rightarrow>
             (step1 @ [Collect_call, Export_call exportTimeout]
                @ (if signal_during_export env \<and> \<not> ctx_done then [Signalled] else [])
                @ export_outcome w (ctx_done \<or> signal_during_export env) (export_err env)
                    (export_ms env),
              Returned))"

text \<open>
  A worker and its surroundings as a state machine. The worker is where the control of
  \<open>generate\<close> stands: in \<open>time.Sleep(offset)\<close>, in the \<open>select\<close> of the loop, returned, or gone
  with the process (exit status, or the panic of \<open>time.NewTicker\<close> on an interval that is not
  positive). Beside it: whether the context is cancelled, and whether a tick of the ticker
  waits in \<open>ticker.C\<close>. There is no clock: when the sleep ends and when the ticker fires
  is for the events to say.
\<close>

datatype pc = Sleeping | Selecting | Stopped | Exited int | Panicked

record sched =
  pc :: pc
  ctx_done :: bool
  ticker_ready :: bool
  trace :: "trace_item list"

fun ended :: "pc \<Rightarrow> bool" where
  "ended (Exited status) = True"
| "ended Panicked = True"
| "ended _ = False"

definition init :: sched where
  "init = \<lparr> pc = Sleeping, ctx_done = False, ticker_ready = False, trace = [] \<rparr>"

text \<open>
  The events: the signal arrives; \<open>main\<close>, which waits on \<open>ctx.Done()\<close>, returns and ends the
  process; the sleep ends; the ticker fires; the \<open>select\<close> takes \<open>ctx.Done()\<close>; the \<open>select\<close> takes
  \<open>ticker.C\<close>. When both channels are ready, Go's \<open>select\<close> may take either.
\<close>

datatype event =
    Signal
  | Main_returns
  | Sleep_elapsed tick_env
  | Ticker_fires
  | Select_done
  | Select_ticker tick_env

definition run_tick :: "worker \<Rightarrow> sched \<Rightarrow> tick_env \<Rightarrow> sched \<times> tick_result" where
  "run_tick w s env =
     (let (items, res) = tick w (ctx_done s) env
      in (s\<lparr> ctx_done := ctx_done s \<or> (res = Returned \<and> signal_during_export env),
              trace := trace s @ Tick_begins # items \<rparr>, res))"

text \<open>
  One step (lines 210-222). \<open>None\<close> means that the event cannot happen in this state.
  \<open>time.Sleep\<close> takes no context: a signal during the sleep changes the context and nothing
  else. On return the deferred calls run, last registered first.
\<close>

fun step :: "worker \<Rightarrow> sched \<Rightarrow> event \<Rightarrow> sched option" where
  "step w s Signal =
     (if ended (pc s) then None
      else Some (s\<lparr> ctx_done := True, trace := trace s @ [Signalled] \<rparr>))"
| "step w s Main_returns =
     (if ended (pc s) \<or> \<not> ctx_done s then None else Some (s\<lparr> pc := Exited 0 \<rparr>))"
| "step w s (Sleep_elapsed env) =
     (if pc s \<noteq> Sleeping then None
      else case run_tick w s env of
             (s', Exit_1) \<Rightarrow> Some (s'\<lparr> pc := Exited 1 \<rparr>)
           | (s', Returned) \<Rightarrow>
               if w_interval w \<le>s 0
               then Some (s'\<lparr> pc := Panicked,
                               trace := trace s' @ [Provider_Shutdown, Exporter_Shutdown] \<rparr>)
               else Some (s'\<lparr> pc := Selecting, trace := trace s' @ [NewTicker (w_interval w)] \<rparr>))"
| "step w s Ticker_fires =
     (if pc s = Selecting then Some (s\<lparr> ticker_ready := True \<rparr>) else None)"
| "step w s Select_done =
     (if pc s = Selecting \<and> ctx_done s
      then Some (s\<lparr> pc := Stopped,
                      trace := trace s @ [Ticker_Stop, Provider_Shutdown, Exporter_Shutdown] \<rparr>)
      else None)"
| "step w s (Select_ticker env) =
     (if pc s = Selecting \<and> ticker_ready s
      then case run_tick w (s\<lparr> ticker_ready := False \<rparr>) env of
             (s', Exit_1) \<Rightarrow> Some (s'\<lparr> pc := Exited 1 \<rparr>)
           | (s', Returned) \<Rightarrow> Some s'
      else None)"

fun run :: "worker \<Rightarrow> sched \<Rightarrow> event list \<Rightarrow> sched option" where
  "run w s [] = Some s"
| "run w s (e # es) = (case step w s e of None \<Rightarrow> None | Some s' \<Rightarrow> run w s' es)"

text \<open>Reading a trace: does a tick begin after the signal; which lines were logged.\<close>

fun tick_after_signal :: "trace_item list \<Rightarrow> bool" where
  "tick_after_signal [] = False"
| "tick_after_signal (x # xs) =
     (if x = Signalled then Tick_begins \<in> set xs else tick_after_signal xs)"

definition printed :: "trace_item list \<Rightarrow> log_line list" where
  "printed tr = concat (map (\<lambda>x. case x of Printf l \<Rightarrow> [l] | Fatalf l \<Rightarrow> [l] | _ \<Rightarrow> []) tr)"

text \<open>The lines that the handling of an export logs, read off the environment of the tick.\<close>

definition outcome_lines :: "worker \<Rightarrow> bool \<Rightarrow> tick_env \<Rightarrow> log_line list" where
  "outcome_lines w cancelled env =
     (if is_DeadlineExceeded (export_err env) then [Timeout_after Second (w_serviceName w)]
      else if cancelled \<or> signal_during_export env then []
      else case export_err env of
             Some e \<Rightarrow> [Failed_to_export (w_serviceName w) e]
           | None \<Rightarrow> [Exported (length (w_gauges w)) (w_serviceName w) (export_ms env)])"

text \<open>
  Concrete inputs: the second of two services with a 10 s interval, one gauge and two
  attribute combinations; a tick where all goes well, one whose export runs into its
  deadline while the signal arrives, and one whose collection fails.
\<close>

definition worker1 :: worker where
  "worker1 = \<lparr> w_serviceName = ''service-0001'', w_gauges = [''metric-0000''],
               w_allAttributes = [[(''a'', ''000000000'')], [(''a'', ''000000001'')]],
               w_offset = 5 * Second, w_interval = 10 * Second \<rparr>"

definition quiet_env :: tick_env where
  "quiet_env = \<lparr> collect_err = None, export_err = None, export_ms = 3, signal_during_export = False \<rparr>"

definition timeout_env :: tick_env where
  "timeout_env = \<lparr> collect_err = None, export_err = Some (Wrap ''context'' DeadlineExceeded),
                   export_ms = 1000, signal_during_export = True \<rparr>"

definition failing_env :: tick_env where
  "failing_env = \<lparr> collect_err = Some (Other ''collect''), export_err = None, export_ms = 0,
                   signal_during_export = False \<rparr>"

section \<open>The stagger offset\<close>

text \<open>
  \<open>offset := time.Duration(float32(interval) * float32(i) / float32(cfg.Services))\<close>
  (\<open>main\<close>, line 132) is computed in \<open>float32\<close>. A \<open>float32\<close> is modelled by the real number it
  stands for, and every operation by the exact result rounded to the nearest number with a
  24-bit significand, ties to the even significand. The exponent is not bounded: the values
  that occur here are 0 or between \<open>2\<^sup>-\<^sup>6\<^sup>3\<close> and \<open>2\<^sup>1\<^sup>2\<^sup>6\<close> in magnitude, inside the normal range of
  \<open>float32\<close>, and the divisor is at least 1 once \<open>Services\<close> is clamped.

  \<open>binade x\<close> is the exponent \<open>e\<close> with \<open>2\<^sup>e \<le> |x| < 2\<^sup>e\<^sup>+\<^sup>1\<close>, \<open>ulp32 x\<close> the distance between
  neighbouring \<open>float32\<close> numbers there.
\<close>

definition binade :: "real \<Rightarrow> int" where
  "binade x = \<lfloor>log 2 \<bar>x\<bar>\<rfloor>"

definition ulp32 :: "real \<Rightarrow> real" where
  "ulp32 x = 2 powr of_int (binade x - 23)"

definition round_half_even :: "real \<Rightarrow> int" where
  "round_half_even y =
     (let f = \<lfloor>y\<rfloor> in
      if y - of_int f < 1 / 2 then f
      else if 1 / 2 < y - of_int f then f + 1
      else if even f then f else f + 1)"

definition round32 :: "real \<Rightarrow> real" where
  "round32 x = (if x = 0 then 0 else of_int (round_half_even (x / ulp32 x)) * ulp32 x)"

text \<open>Conversion of an integer, product and quotient: one rounding each.\<close>

definition float32_of_int :: "int \<Rightarrow> real" where
  "float32_of_int k = round32 (of_int k)"

definition mul32 :: "real \<Rightarrow> real \<Rightarrow> real" where
  "mul32 x y = round32 (x * y)"

definition div32 :: "real \<Rightarrow> real \<Rightarrow> real" where
  "div32 x y = round32 (x / y)"

text \<open>
  Conversion of a \<open>float32\<close> to an \<open>int64\<close>: the fraction is discarded. What a value outside
  the range of \<open>int64\<close> gives depends on the implementation: \<open>None\<close>.
\<close>

definition truncate :: "real \<Rightarrow> int" where
  "truncate x = (if 0 \<le> x then \<lfloor>x\<rfloor> else \<lceil>x\<rceil>)"

definition Duration_of_float32 :: "real \<Rightarrow> Duration option" where
  "Duration_of_float32 x =
     (if - (2 ^ 63) \<le> truncate x \<and> truncate x < 2 ^ 63 then Some (word_of_int (truncate x))
      else None)"

definition offset :: "Duration \<Rightarrow> nat \<Rightarrow> go_int \<Rightarrow> Duration option" where
  "offset interval i services =
     Duration_of_float32
       (div32 (mul32 (float32_of_int (sint interval)) (float32_of_int (int i)))
              (float32_of_int (sint services)))"

text \<open>
  For the proofs: the \<open>float32\<close> value before the last conversion, and the factor
  \<open>1 + 2\<^sup>-\<^sup>2\<^sup>4\<close> by which one rounding can grow a value.
\<close>

definition offset_value :: "int \<Rightarrow> int \<Rightarrow> int \<Rightarrow> real" where
  "offset_value I i n = div32 (mul32 (float32_of_int I) (float32_of_int i)) (float32_of_int n)"

definition rel32 :: real where
  "rel32 = 1 + 1 / 2 ^ 24"

text \<open>A configuration whose interval, in nanoseconds, no longer fits an \<open>int64\<close>.\<close>

definition wrapping_config :: config where
  "wrapping_config = \<lparr> Metrics = 1, Interval = 9223372037, Services = 2, Attributes = [] \<rparr>"

section \<open>The enumerator: auxiliary facts\<close>

lemma foldl_concat_map:
  "foldl f s (concat (map g xs)) = foldl (\<lambda>s x. foldl f s (g x)) s xs"
  by (induction xs arbitrary: s) simp_all

lemma iterateAttributes_foldl:
  "iterateAttributes defs yield s = foldl (\<lambda>s v. snd (yield v s)) s (combos defs)"
proof (induction defs arbitrary: yield s)
  case Nil
  show ?case by simp
next
  case (Cons c rest)
  show ?case
  proof (cases "rest = []")
    case True
    then show ?thesis by (simp add: foldl_map)
  next
    case False
    then show ?thesis
      by (simp add: foldl_concat_map foldl_map Cons.IH)
  qed
qed

lemma foldl_snoc_collect: "foldl (\<lambda>s v. s @ [v]) acc xs = acc @ xs"
  by (induction xs arbitrary: acc) simp_all

lemma Collect_iterateAttributes: "slices_Collect (iterateAttributes defs) = combos defs"
  by (simp add: slices_Collect_def iterateAttributes_foldl foldl_snoc_collect)

lemma foldl_logged:
  "foldl (\<lambda>st v. (snd (yield v (fst st)), snd st @ [v])) (s, acc) xs
   = (foldl (\<lambda>s v. snd (yield v s)) s xs, acc @ xs)"
  by (induction xs arbitrary: s acc) simp_all

lemma yielded_iterateAttributes: "yielded (iterateAttributes defs) yield s = combos defs"
  by (simp add: yielded_def iterateAttributes_foldl split_beta Let_def foldl_logged)

lemma length_concat_map_const:
  "(\<And>x. x \<in> set xs \<Longrightarrow> length (f x) = m) \<Longrightarrow> length (concat (map f xs)) = length xs * m"
  by (induction xs) simp_all

lemma length_combos:
  "defs \<noteq> [] \<Longrightarrow> length (combos defs) = prod_list (cardinalities defs)"
proof (induction defs)
  case Nil
  then show ?case by simp
next
  case (Cons c rest)
  show ?case
  proof (cases "rest = []")
    case True
    then show ?thesis
      by (simp add: cardinalities_def range_int_def length_concat_map_const [where m = 1])
  next
    case False
    with Cons.IH have "length (combos rest) = prod_list (cardinalities rest)" by simp
    with False show ?thesis
      by (simp add: cardinalities_def range_int_def
          length_concat_map_const [where m = "prod_list (map (\<lambda>d. nat (sint (Cardinality d))) rest)"])
  qed
qed

lemma nth_concat_map_const:
  "(\<And>x. x \<in> set xs \<Longrightarrow> length (f x) = m) \<Longrightarrow> k < length xs * m \<Longrightarrow>
   concat (map f xs) ! k = f (xs ! (k div m)) ! (k mod m)"
proof (induction xs arbitrary: k)
  case Nil
  then show ?case by simp
next
  case (Cons x xs)
  have m: "0 < m" using Cons.prems(2) by (cases m) simp_all
  show ?case
  proof (cases "k < m")
    case True
    then show ?thesis using Cons.prems(1) [of x] by (simp add: nth_append)
  next
    case False
    then have km: "m \<le> k" by simp
    have "k - m < length xs * m" using Cons.prems(2) km by simp
    then have IH: "concat (map f xs) ! (k - m) = f (xs ! ((k - m) div m)) ! ((k - m) mod m)"
      using Cons.IH Cons.prems(1) by simp
    have "k div m = ((k - m) + m) div m" using km by simp
    also have "\<dots> = (k - m) div m + 1" using m by (intro div_add_self2) simp
    also have "\<dots> = Suc ((k - m) div m)" by simp
    finally have d: "k div m = Suc ((k - m) div m)" .
    have r: "(k - m) mod m = k mod m" using km by (simp add: le_mod_geq)
    show ?thesis using False Cons.prems(1) [of x] IH d r by (simp add: nth_append)
  qed
qed

lemma length_decimal_pos: "0 < length (decimal n)"
  by (induction n rule: decimal.induct) (subst decimal.simps, simp)

lemma length_decimal_le: "0 < k \<Longrightarrow> length (decimal n) \<le> k \<longleftrightarrow> n < 10 ^ k"
proof (induction n arbitrary: k rule: decimal.induct)
  case (1 n)
  show ?case
  proof (cases "n < 10")
    case True
    have "(10::nat) ^ 1 \<le> 10 ^ k" using "1.prems" by (intro power_increasing) simp_all
    then have "n < 10 ^ k" using True by simp
    moreover have "length (decimal n) = 1" using True by (subst decimal.simps) simp
    ultimately show ?thesis using "1.prems" by simp
  next
    case False
    have len: "length (decimal n) = Suc (length (decimal (n div 10)))"
      using False by (subst decimal.simps) simp
    show ?thesis
    proof (cases k)
      case 0
      then show ?thesis using "1.prems" by simp
    next
      case (Suc j)
      show ?thesis
      proof (cases "j = 0")
        case True
        then show ?thesis using False Suc len length_decimal_pos [of "n div 10"] by simp
      next
        case j: False
        then have "length (decimal (n div 10)) \<le> j \<longleftrightarrow> n div 10 < 10 ^ j"
          using "1.IH" [of j] False by simp
        moreover have "n div 10 < 10 ^ j \<longleftrightarrow> n < 10 ^ Suc j"
          by (simp add: div_less_iff_less_mult mult.commute)
        ultimately show ?thesis using Suc len by simp
      qed
    qed
  qed
qed

lemma length_Sprintf_0d: "length (Sprintf_0d w n) = max w (length (decimal n))"
  by (simp add: Sprintf_0d_def)

lemma length_Sprintf_09d: "length (Sprintf_0d 9 n) = 9 \<longleftrightarrow> n < 10 ^ 9"
  using length_decimal_le [of 9 n] by (auto simp add: length_Sprintf_0d max_def)

lemma digit_val_digit_char: "d < 10 \<Longrightarrow> digit_val (digit_char d) = d"
proof -
  assume "d < 10"
  then have "d \<in> set [0..<10]" by simp
  also have "[0..<10] = [0, 1, 2, 3, 4, 5, 6, 7, 8, 9::nat]" by (simp add: upt_rec)
  finally show ?thesis by (auto simp add: digit_val_def digit_char_def)
qed

lemma undecimal_decimal: "undecimal (decimal n) = n"
proof (induction n rule: decimal.induct)
  case (1 n)
  show ?case
  proof (cases "n < 10")
    case True
    then show ?thesis by (subst decimal.simps) (simp add: undecimal_def digit_val_digit_char)
  next
    case False
    then have "undecimal (decimal (n div 10)) = n div 10" using "1.IH" by simp
    then show ?thesis using False
      by (subst decimal.simps) (simp add: undecimal_def digit_val_digit_char)
  qed
qed

lemma undecimal_zeros: "undecimal (replicate k (CHR ''0'') @ s) = undecimal s"
proof -
  have "foldl (\<lambda>a c. 10 * a + digit_val c) 0 (replicate k (CHR ''0'')) = 0"
    by (induction k) (simp_all add: digit_val_def)
  then show ?thesis by (simp add: undecimal_def)
qed

lemma undecimal_Sprintf_0d: "undecimal (Sprintf_0d w n) = n"
  by (simp add: Sprintf_0d_def undecimal_zeros undecimal_decimal)

lemma Sprintf_0d_inj: "Sprintf_0d w a = Sprintf_0d w b \<Longrightarrow> a = b"
  by (metis undecimal_Sprintf_0d)

lemma odometer_digits_mod:
  "prod_list rs dvd M \<Longrightarrow> odometer_digits rs (k mod M) = odometer_digits rs k"
proof (induction rs arbitrary: M)
  case Nil
  show ?case by simp
next
  case (Cons r rs)
  let ?P = "prod_list rs"
  from Cons.prems obtain t where M: "M = ?P * (r * t)" by (auto simp: dvd_def mult_ac)
  have "?P dvd M" using M by simp
  then have tl: "odometer_digits rs (k mod M) = odometer_digits rs k" by (rule Cons.IH)
  have "(k mod M) div ?P = (k div ?P) mod (r * t)"
    unfolding M by (cases "?P = 0") (simp_all add: mod_mult2_eq)
  then have "(k mod M) div ?P mod r = k div ?P mod r"
    by (simp add: mod_mod_cancel)
  with tl show ?case by simp
qed

lemma nth_combos:
  "defs \<noteq> [] \<Longrightarrow> k < prod_list (cardinalities defs) \<Longrightarrow>
   combos defs ! k =
     map2 (\<lambda>d v. attribute_String (Name d) (Sprintf_0d 9 v)) defs (odometer_digits (cardinalities defs) k)"
proof (induction defs arbitrary: k)
  case Nil
  then show ?case by simp
next
  case (Cons c rest)
  let ?n = "nat (sint (Cardinality c))"
  show ?case
  proof (cases "rest = []")
    case True
    then show ?thesis using Cons.prems(2)
      by (simp add: cardinalities_def range_int_def)
  next
    case False
    let ?m = "prod_list (cardinalities rest)"
    have len: "length (combos rest) = ?m" using False by (rule length_combos)
    have k: "k < ?n * ?m" using Cons.prems(2) by (simp add: cardinalities_def)
    then have m: "0 < ?m" by (cases "?m") simp_all
    have q: "k div ?m < ?n" using k m by (simp add: less_mult_imp_div_less)
    have r: "k mod ?m < ?m" using m by simp
    have "combos (c # rest) ! k =
        (map (\<lambda>r. attribute_String (Name c) (Sprintf_0d 9 ([0..<?n] ! (k div ?m))) # r) (combos rest)) ! (k mod ?m)"
      using False k len
      by (simp add: range_int_def
          nth_concat_map_const [where m = ?m and xs = "[0..<?n]" and k = k])
    also have "\<dots> = attribute_String (Name c) (Sprintf_0d 9 (k div ?m)) # combos rest ! (k mod ?m)"
      using q r len by simp
    also have "combos rest ! (k mod ?m) =
        map2 (\<lambda>d v. attribute_String (Name d) (Sprintf_0d 9 v)) rest
          (odometer_digits (cardinalities rest) (k mod ?m))"
      using False r by (rule Cons.IH)
    also have "odometer_digits (cardinalities rest) (k mod ?m) = odometer_digits (cardinalities rest) k"
      by (rule odometer_digits_mod) simp
    finally show ?thesis using q by (simp add: cardinalities_def)
  qed
qed

lemma range_int_small: "range_int 1 = [0]" "range_int 2 = [0, 1]" "range_int 3 = [0, 1, 2]"
  by (simp_all add: range_int_def upt_rec)

lemma Sprintf_09d_small:
  "Sprintf_0d 9 0 = ''000000000''" "Sprintf_0d 9 (Suc 0) = ''000000001''"
  "Sprintf_0d 9 2 = ''000000002''"
  by (simp_all add: Sprintf_0d_def decimal.simps digit_char_def eval_nat_numeral)

lemma combos_scenario:
  "combos scenario =
    [[(''one'', ''000000000''), (''two'', ''000000000''), (''three'', ''000000000'')],
     [(''one'', ''000000000''), (''two'', ''000000000''), (''three'', ''000000001'')],
     [(''one'', ''000000000''), (''two'', ''000000000''), (''three'', ''000000002'')],
     [(''one'', ''000000000''), (''two'', ''000000001''), (''three'', ''000000000'')],
     [(''one'', ''000000000''), (''two'', ''000000001''), (''three'', ''000000001'')],
     [(''one'', ''000000000''), (''two'', ''000000001''), (''three'', ''000000002'')]]"
  by (simp add: scenario_def range_int_small Sprintf_09d_small attribute_String_def)

lemma int_prod_cardinalities:
  "\<forall>d\<in>set defs. 1 \<le>s Cardinality d \<Longrightarrow>
   int (prod_list (cardinalities defs)) = prod_list (map (\<lambda>d. sint (Cardinality d)) defs)"
  by (induction defs) (simp_all add: cardinalities_def word_sle_eq)

lemma length_odometer_digits: "length (odometer_digits rs k) = length rs"
  by (induction rs) simp_all

lemma odometer_digits_less:
  "j < length rs \<Longrightarrow> 0 < rs ! j \<Longrightarrow> odometer_digits rs k ! j < rs ! j"
proof (induction rs arbitrary: j)
  case Nil
  then show ?case by simp
next
  case (Cons r rs)
  then show ?case by (cases j) simp_all
qed

lemma scenario_ok: "scenario \<noteq> []" "\<forall>d\<in>set scenario. 1 \<le>s Cardinality d"
  by (simp_all add: scenario_def word_sle_eq)














section \<open>The enumerator: claims\<close>

text \<open>
  Claim C1. For every list of attribute definitions whose cardinalities are all at least 1,
  collecting \<open>iterateAttributes\<close> gives exactly as many combinations as the product of the
  cardinalities, the product being taken over a list that is not empty; for the empty list
  of definitions, where that product would be 1, it gives the empty sequence.
\<close>

theorem C1_enumeration_count:
  assumes "\<forall>d\<in>set defs. 1 \<le>s Cardinality d"
  shows "int (length (slices_Collect (iterateAttributes defs)))
           = (if defs = [] then 0 else prod_list (map (\<lambda>d. sint (Cardinality d)) defs))
         \<and> slices_Collect (iterateAttributes []) = ([] :: KeyValue list list)"
proof (cases "defs = []")
  case True
  then show ?thesis by (simp add: Collect_iterateAttributes)
next
  case False
  then have "length (combos defs) = prod_list (cardinalities defs)"
    by (rule length_combos)
  then show ?thesis
    using False int_prod_cardinalities [OF assms] by (simp add: Collect_iterateAttributes)
qed

text \<open>The test's definitions have cardinalities 1, 2 and 3, and give \<open>1 * 2 * 3\<close> combinations.\<close>

theorem C1_enumeration_count_witness:
  "int (length (slices_Collect (iterateAttributes scenario))) = 1 * 2 * 3"
  using C1_enumeration_count [OF scenario_ok(2)] by (simp add: scenario_def)

text \<open>
  Claim C2, as amended. For every non-empty list of attribute definitions with
  cardinalities at least 1, the \<open>k\<close>-th combination collected from \<open>iterateAttributes\<close> is the
  rendering of the mixed-radix digits of \<open>k\<close>, the first definition being the most
  significant digit and the last one cycling fastest; every digit is below its cardinality and
  is printed in decimal, padded with zeros to at least 9 characters. A position of
  cardinality 1 always holds \<open>000000000\<close>, and a position whose cardinality is at most
  \<open>10\<^sup>9\<close> always holds exactly 9 characters. The definitions of the test give the six
  combinations of the test, in its order.
\<close>

theorem C2_odometer_order:
  assumes "defs \<noteq> []" and "\<forall>d\<in>set defs. 1 \<le>s Cardinality d"
    and "k < length (slices_Collect (iterateAttributes defs))"
  shows "slices_Collect (iterateAttributes defs) ! k
           = render defs (odometer_digits (cardinalities defs) k)
         \<and> length (odometer_digits (cardinalities defs) k) = length defs
         \<and> (\<forall>j<length defs.
               odometer_digits (cardinalities defs) k ! j < cardinalities defs ! j
               \<and> (Cardinality (defs ! j) = 1 \<longrightarrow>
                    snd (slices_Collect (iterateAttributes defs) ! k ! j) = ''000000000'')
               \<and> (Cardinality (defs ! j) \<le>s 1000000000 \<longrightarrow>
                    length (snd (slices_Collect (iterateAttributes defs) ! k ! j)) = 9))
         \<and> slices_Collect (iterateAttributes scenario) =
             [[(''one'', ''000000000''), (''two'', ''000000000''), (''three'', ''000000000'')],
              [(''one'', ''000000000''), (''two'', ''000000000''), (''three'', ''000000001'')],
              [(''one'', ''000000000''), (''two'', ''000000000''), (''three'', ''000000002'')],
              [(''one'', ''000000000''), (''two'', ''000000001''), (''three'', ''000000000'')],
              [(''one'', ''000000000''), (''two'', ''000000001''), (''three'', ''000000001'')],
              [(''one'', ''000000000''), (''two'', ''000000001''), (''three'', ''000000002'')]]"
proof -
  let ?rs = "cardinalities defs"
  let ?ds = "odometer_digits ?rs k"
  have k: "k < prod_list ?rs"
    using assms(1,3) by (simp add: Collect_iterateAttributes length_combos)
  have nth: "slices_Collect (iterateAttributes defs) ! k = render defs ?ds"
    using assms(1) k by (simp add: Collect_iterateAttributes nth_combos render_def)
  have len: "length ?ds = length defs"
    by (simp add: length_odometer_digits cardinalities_def)
  have digits: "?ds ! j < ?rs ! j" if "j < length defs" for j
  proof -
    have "1 \<le>s Cardinality (defs ! j)" using assms(2) that by simp
    then have "0 < ?rs ! j" using that by (simp add: cardinalities_def word_sle_eq)
    then show ?thesis using that by (intro odometer_digits_less) (simp_all add: cardinalities_def)
  qed
  have val: "snd (slices_Collect (iterateAttributes defs) ! k ! j) = Sprintf_0d 9 (?ds ! j)"
    if "j < length defs" for j
    using that len by (simp add: nth render_def attribute_String_def)
  have one: "snd (slices_Collect (iterateAttributes defs) ! k ! j) = ''000000000''"
    if "j < length defs" "Cardinality (defs ! j) = 1" for j
  proof -
    have "?rs ! j = 1" using that by (simp add: cardinalities_def)
    with digits [OF that(1)] have "?ds ! j = 0" by simp
    then show ?thesis using val [OF that(1)] by (simp add: Sprintf_09d_small)
  qed
  have nine: "length (snd (slices_Collect (iterateAttributes defs) ! k ! j)) = 9"
    if "j < length defs" "Cardinality (defs ! j) \<le>s 1000000000" for j
  proof -
    have "?rs ! j \<le> 1000000000" using that by (simp add: cardinalities_def word_sle_eq)
    with digits [OF that(1)] have "?ds ! j < 10 ^ 9" by simp
    then show ?thesis using val [OF that(1)] by (simp only: length_Sprintf_09d)
  qed
  have test: "slices_Collect (iterateAttributes scenario) = combos scenario"
    by (rule Collect_iterateAttributes)
  show ?thesis unfolding test combos_scenario using nth len digits one nine by blast
qed

text \<open>
  At the test's definitions the last combination, index 5, has the digits \<open>0, 1, 2\<close>.
\<close>

theorem C2_odometer_order_witness:
  "slices_Collect (iterateAttributes scenario) ! 5
     = [(''one'', ''000000000''), (''two'', ''000000001''), (''three'', ''000000002'')]
   \<and> odometer_digits (cardinalities scenario) 5 = [0, 1, 2]
   \<and> snd (slices_Collect (iterateAttributes scenario) ! 5 ! 0) = ''000000000''
   \<and> length (snd (slices_Collect (iterateAttributes scenario) ! 5 ! 2)) = 9"
proof -
  have len: "5 < length (slices_Collect (iterateAttributes scenario))"
    by (simp add: Collect_iterateAttributes combos_scenario)
  have ds: "odometer_digits (cardinalities scenario) 5 = [0, 1, 2]"
    by (simp add: cardinalities_def scenario_def)
  have r: "render scenario [0, 1, 2]
      = [(''one'', ''000000000''), (''two'', ''000000001''), (''three'', ''000000002'')]"
    by (simp add: render_def scenario_def attribute_String_def Sprintf_09d_small)
  note c = C2_odometer_order [OF scenario_ok len]
  have c0: "Cardinality (scenario ! 0) = 1" and c2: "Cardinality (scenario ! 2) \<le>s 1000000000"
    and l: "0 < length scenario" "2 < length scenario"
    by (simp_all add: scenario_def word_sle_eq)
  have "snd (slices_Collect (iterateAttributes scenario) ! 5 ! 0) = ''000000000''"
    using c [THEN conjunct2, THEN conjunct2, THEN conjunct1] c0 l(1) by blast
  moreover have "length (snd (slices_Collect (iterateAttributes scenario) ! 5 ! 2)) = 9"
    using c [THEN conjunct2, THEN conjunct2, THEN conjunct1] c2 l(2) by blast
  ultimately show ?thesis
    using c [THEN conjunct1] ds r by simp
qed

text \<open>
  Claim C2 as stated fails where a cardinality exceeds \<open>10\<^sup>9\<close>: \<open>%09d\<close> is a minimum width,
  so the index \<open>1000000000\<close> of an attribute of cardinality \<open>1000000001\<close> is printed with ten
  digits.
\<close>

theorem C2_ten_digit_counterexample:
  "slices_Collect (iterateAttributes [\<lparr>Name = ''a'', Cardinality = 1000000001\<rparr>]) ! 1000000000
     = [(''a'', ''1000000000'')]
   \<and> length (snd (slices_Collect (iterateAttributes [\<lparr>Name = ''a'', Cardinality = 1000000001\<rparr>])
        ! 1000000000 ! 0)) = 10"
proof -
  let ?defs = "[\<lparr>Name = ''a'', Cardinality = 1000000001\<rparr>]"
  have c: "cardinalities ?defs = [1000000001]" by (simp add: cardinalities_def)
  have s: "Sprintf_0d 9 1000000000 = ''1000000000''"
    by (simp add: Sprintf_0d_def decimal.simps digit_char_def)
  have "combos ?defs ! 1000000000
      = map2 (\<lambda>d v. attribute_String (Name d) (Sprintf_0d 9 v)) ?defs
          (odometer_digits (cardinalities ?defs) 1000000000)"
    by (rule nth_combos) (simp_all add: c)
  then show ?thesis
    by (simp add: Collect_iterateAttributes c s attribute_String_def)
qed

text \<open>
  Claim C8. The enumerator is deterministic and restartable: the sequence of combinations it
  hands to its callback is the same for any two invocations on the same definitions, whatever
  the two consumers do and whatever state they are in, and it is the sequence that
  \<open>slices.Collect\<close> gathers. Nothing but the consumer's own state passes from one invocation
  to the next: a second invocation run after a first one appends the same sequence again.
\<close>

theorem C8_deterministic_restartable:
  "yielded (iterateAttributes defs) yield1 s1 = yielded (iterateAttributes defs) yield2 s2
   \<and> yielded (iterateAttributes defs) yield1 s1 = slices_Collect (iterateAttributes defs)
   \<and> iterateAttributes defs (\<lambda>v acc. (True, acc @ [v]))
        (iterateAttributes defs (\<lambda>v acc. (True, acc @ [v])) acc)
      = acc @ slices_Collect (iterateAttributes defs) @ slices_Collect (iterateAttributes defs)"
  by (simp add: yielded_iterateAttributes Collect_iterateAttributes iterateAttributes_foldl
      foldl_snoc_collect)




section \<open>Start-up: auxiliary facts\<close>

lemma word_of_int_sint_self: "word_of_int (sint w) = w"
  by simp

lemma sint_go_max: "1 \<le> sint (go_max 1 (x :: go_int))"
  by (simp add: go_max_def word_sless_alt)

lemma foldl_attrCardinality:
  "foldl (\<lambda>a (c :: attributeConfig). a * Cardinality c) acc attrs
     = acc * word_of_int (prod_list (map (\<lambda>d. sint (Cardinality d)) attrs))"
proof (induction attrs arbitrary: acc)
  case Nil
  show ?case by simp
next
  case (Cons c attrs)
  have "Cardinality c = word_of_int (sint (Cardinality c))" by simp
  then show ?case by (simp add: Cons.IH mult.assoc del: word_of_int_sint_self)
qed

lemma totalSeries_of_int:
  "totalSeries cfg = word_of_int (sint (Services cfg) * sint (Metrics cfg)
      * prod_list (map (\<lambda>d. sint (Cardinality d)) (Attributes cfg)))"
  by (simp add: totalSeries_def attrCardinality_def foldl_attrCardinality)

lemma foldl_snoc_map: "foldl (\<lambda>s i. s @ [f i]) acc xs = acc @ map f xs"
  by (induction xs arbitrary: acc) simp_all

lemma metricNames_map:
  "metricNames cfg = map (\<lambda>i. ''metric-'' @ Sprintf_0d 4 i) (range_int (Metrics cfg))"
  by (simp add: metricNames_def slices_Collect_def foldl_snoc_map)

lemma distinct_range_int: "distinct (range_int n)"
  by (simp add: range_int_def)

lemma distinct_metricNames: "distinct (metricNames cfg)"
  by (auto simp add: metricNames_map distinct_map distinct_range_int inj_on_def
      dest: Sprintf_0d_inj)

lemma distinct_concat_map:
  "distinct xs \<Longrightarrow> (\<And>x. x \<in> set xs \<Longrightarrow> distinct (f x)) \<Longrightarrow>
   (\<And>x y. x \<in> set xs \<Longrightarrow> y \<in> set xs \<Longrightarrow> x \<noteq> y \<Longrightarrow> set (f x) \<inter> set (f y) = {}) \<Longrightarrow>
   distinct (concat (map f xs))"
proof (induction xs)
  case Nil
  show ?case by simp
next
  case (Cons x xs)
  have "distinct (concat (map f xs))" using Cons by simp
  moreover have "distinct (f x)" using Cons.prems(2) by simp
  moreover have "set (f x) \<inter> set (f y) = {}" if "y \<in> set xs" for y
    using Cons.prems(1) Cons.prems(3) [of x y] that by auto
  ultimately show ?case by auto
qed

lemma distinct_combos: "distinct (combos defs)"
proof (induction defs)
  case Nil
  show ?case by simp
next
  case (Cons c rest)
  let ?kv = "\<lambda>i. attribute_String (Name c) (Sprintf_0d 9 i)"
  have inj: "?kv i = ?kv j \<Longrightarrow> i = j" for i j
    by (auto simp add: attribute_String_def dest: Sprintf_0d_inj)
  show ?case
  proof (cases "rest = []")
    case True
    have "distinct (concat (map (\<lambda>i. [[?kv i]]) (range_int (Cardinality c))))"
      by (intro distinct_concat_map) (auto simp add: distinct_range_int dest: inj)
    with True show ?thesis by simp
  next
    case False
    have "distinct (concat (map (\<lambda>i. map (\<lambda>r. ?kv i # r) (combos rest)) (range_int (Cardinality c))))"
      by (intro distinct_concat_map) (auto simp add: distinct_range_int distinct_map Cons.IH inj_on_def dest: inj)
    with False show ?thesis by simp
  qed
qed

lemma distinct_record_calls:
  "distinct gauges \<Longrightarrow> distinct allAttrs \<Longrightarrow> distinct (record_calls gauges allAttrs)"
  unfolding record_calls_def
  by (intro distinct_concat_map) (auto simp add: distinct_map inj_on_def)

lemma length_record_calls:
  "length (record_calls gauges allAttrs) = length gauges * length allAttrs"
  unfolding record_calls_def
  by (simp add: length_concat_map_const [where m = "length allAttrs"])

lemma serviceName_inj: "serviceName i = serviceName j \<Longrightarrow> i = j"
  by (auto simp add: serviceName_def dest: Sprintf_0d_inj)

lemma distinct_all_series: "distinct (all_series cfg)"
  unfolding all_series_def
  by (intro distinct_concat_map)
    (auto simp add: distinct_range_int distinct_map inj_on_def distinct_record_calls
      distinct_metricNames allAttributes_def Collect_iterateAttributes distinct_combos
      dest: serviceName_inj)

lemma length_all_series:
  "length (all_series cfg)
     = nat (sint (Services cfg)) * (nat (sint (Metrics cfg)) * length (allAttributes cfg))"
  unfolding all_series_def
  by (simp add: length_concat_map_const [where m = "nat (sint (Metrics cfg)) * length (allAttributes cfg)"]
      length_record_calls metricNames_map range_int_def)

lemma clamp_simps:
  "Services (clamp cfg) = go_max 1 (Services cfg)"
  "Metrics (clamp cfg) = go_max 1 (Metrics cfg)"
  "Interval (clamp cfg) = go_max 1 (Interval cfg)"
  "Attributes (clamp cfg) = map (\<lambda>a. a\<lparr>Cardinality := go_max 1 (Cardinality a)\<rparr>) (Attributes cfg)"
  by (simp_all add: clamp_def)

lemma clamp_cardinalities: "\<forall>d\<in>set (Attributes (clamp cfg)). 1 \<le>s Cardinality d"
  by (auto simp add: clamp_simps word_sle_eq sint_go_max)

lemma length_all_series_clamp:
  assumes "Attributes cfg \<noteq> []"
  shows "int (length (all_series (clamp cfg))) = series_product (clamp cfg)"
proof -
  let ?c = "clamp cfg"
  have ne: "Attributes ?c \<noteq> []" using assms by (simp add: clamp_simps)
  have "int (length (allAttributes ?c)) = prod_list (map (\<lambda>d. sint (Cardinality d)) (Attributes ?c))"
    using int_prod_cardinalities [OF clamp_cardinalities, of cfg] length_combos [OF ne]
    by (simp add: allAttributes_def Collect_iterateAttributes)
  moreover have "int (nat (sint (Services ?c))) = sint (Services ?c)"
    using sint_go_max [of "Services cfg"] by (simp add: clamp_simps)
  moreover have "int (nat (sint (Metrics ?c))) = sint (Metrics ?c)"
    using sint_go_max [of "Metrics cfg"] by (simp add: clamp_simps)
  ultimately show ?thesis
    by (simp add: length_all_series series_product_def)
qed

lemma series_product_pos: "0 < series_product (clamp cfg)"
proof -
  have "0 < prod_list (map (\<lambda>d. sint (Cardinality d)) attrs)"
    if "\<forall>d\<in>set attrs. 1 \<le>s Cardinality d" for attrs :: "attributeConfig list"
    using that by (induction attrs) (simp_all add: word_sle_eq)
  from this [OF clamp_cardinalities, of cfg] show ?thesis
    using sint_go_max [of "Services cfg"] sint_go_max [of "Metrics cfg"]
    by (simp add: series_product_def clamp_simps)
qed

lemma readme_clamped: "clamp readme_config = readme_config"
  by (simp add: clamp_def readme_config_def go_max_def word_sless_alt)

section \<open>Start-up: claims\<close>

text \<open>
  Claim C7, as amended. For every clamped configuration, the "Total series" value that
  \<open>main\<close> computes is \<open>Services \<times> Metrics \<times> \<Prod> cardinality\<close> reduced to a 64-bit \<open>int\<close>, and
  is that product itself whenever the product is below \<open>2\<^sup>6\<^sup>3\<close>; when the list of attribute
  definitions is not empty, the series that the services record are pairwise distinct and
  their number is that product. For the configuration of the README (2 services, 2 metrics,
  cardinalities 2, 1 and 3) both are 24.
\<close>

theorem C7_total_series:
  "totalSeries (clamp cfg) = word_of_int (series_product (clamp cfg))
   \<and> (series_product (clamp cfg) < 2 ^ 63 \<longrightarrow>
        sint (totalSeries (clamp cfg)) = series_product (clamp cfg))
   \<and> (Attributes cfg \<noteq> [] \<longrightarrow>
        distinct (all_series (clamp cfg))
        \<and> int (length (all_series (clamp cfg))) = series_product (clamp cfg))
   \<and> totalSeries (clamp readme_config) = 24
   \<and> length (all_series (clamp readme_config)) = 24"
proof -
  have 1: "totalSeries (clamp cfg) = word_of_int (series_product (clamp cfg))" for cfg
    by (simp add: totalSeries_of_int series_product_def)
  have 2: "sint (totalSeries (clamp cfg)) = series_product (clamp cfg)"
    if "series_product (clamp cfg) < 2 ^ 63"
  proof -
    have "sint (totalSeries (clamp cfg)) = signed_take_bit 63 (series_product (clamp cfg))"
      by (simp add: 1 sint_sbintrunc')
    also have "\<dots> = series_product (clamp cfg)"
      using that series_product_pos [of cfg] by (intro signed_take_bit_int_eq_self) simp_all
    finally show ?thesis .
  qed
  have p: "series_product readme_config = 24"
    by (simp add: series_product_def readme_config_def)
  have 4: "totalSeries (clamp readme_config) = 24"
    using 1 [of readme_config] by (simp add: readme_clamped p)
  have "Attributes readme_config \<noteq> []" by (simp add: readme_config_def)
  from length_all_series_clamp [OF this]
  have 5: "length (all_series (clamp readme_config)) = 24"
    by (simp add: readme_clamped p)
  show ?thesis using 1 2 4 5 distinct_all_series length_all_series_clamp by blast
qed

text \<open>The README's configuration: the product is 24, below \<open>2\<^sup>6\<^sup>3\<close>, and the list is not empty.\<close>

theorem C7_total_series_witness:
  "series_product (clamp readme_config) = 2 * 2 * (2 * 1 * 3)
   \<and> sint (totalSeries (clamp readme_config)) = 24
   \<and> distinct (all_series (clamp readme_config))
   \<and> int (length (all_series (clamp readme_config))) = 24"
proof -
  have p: "series_product (clamp readme_config) = 24"
    unfolding readme_clamped by (simp add: series_product_def readme_config_def)
  have ne: "Attributes readme_config \<noteq> []" by (simp add: readme_config_def)
  note c = C7_total_series [of readme_config, THEN conjunct2]
  have "sint (totalSeries (clamp readme_config)) = 24"
    using c [THEN conjunct1] p by simp
  moreover have "distinct (all_series (clamp readme_config))
      \<and> int (length (all_series (clamp readme_config))) = 24"
    using c [THEN conjunct2, THEN conjunct1] ne p by simp
  ultimately show ?thesis using p by simp
qed

text \<open>
  Claim C7 as stated fails in two places. With no attribute definitions the enumerator yields
  no combination, so nothing is recorded, while the reported total is 1. And the reported
  total wraps around: \<open>2\<^sup>6\<^sup>2\<close> services with 2 metrics are reported as \<open>- 2\<^sup>6\<^sup>3\<close>.
\<close>

theorem C7_empty_and_overflow_counterexample:
  "all_series (clamp \<lparr>Metrics = 1, Interval = 1, Services = 1, Attributes = []\<rparr>) = []
   \<and> sint (totalSeries (clamp \<lparr>Metrics = 1, Interval = 1, Services = 1, Attributes = []\<rparr>)) = 1
   \<and> series_product (clamp \<lparr>Metrics = 2, Interval = 1, Services = 4611686018427387904,
        Attributes = [\<lparr>Name = ''a'', Cardinality = 1\<rparr>]\<rparr>) = 9223372036854775808
   \<and> sint (totalSeries (clamp \<lparr>Metrics = 2, Interval = 1, Services = 4611686018427387904,
        Attributes = [\<lparr>Name = ''a'', Cardinality = 1\<rparr>]\<rparr>)) = - 9223372036854775808"
  by (simp add: clamp_def go_max_def word_sless_alt all_series_def record_calls_def
      allAttributes_def slices_Collect_def totalSeries_def attrCardinality_def series_product_def)

section \<open>The per-service scheduler: auxiliary facts\<close>

lemma printed_append: "printed (xs @ ys) = printed xs @ printed ys"
  by (simp add: printed_def)

lemma printed_records: "printed (map (\<lambda>(g, a). Record_call g a) rs) = []"
  by (induction rs) (auto simp add: printed_def)

lemma printed_simps:
  "printed [] = []"
  "printed (Printf l # xs) = l # printed xs"
  "printed (Fatalf l # xs) = l # printed xs"
  "printed (Signalled # xs) = printed xs"
  "printed (Tick_begins # xs) = printed xs"
  "printed (Collect_call # xs) = printed xs"
  "printed (Export_call d # xs) = printed xs"
  "printed (NewTicker d # xs) = printed xs"
  "printed (Record_call g a # xs) = printed xs"
  by (simp_all add: printed_def)

lemma printed_export_outcome:
  "printed (export_outcome w (c \<or> signal_during_export env) (export_err env) (export_ms env))
     = outcome_lines w c env"
  by (simp add: export_outcome_def outcome_lines_def printed_simps exportTimeout_def
      split: option.splits)

lemma run_tick_ok:
  assumes "collect_err env = None"
  shows "snd (run_tick w s env) = Returned"
    and "printed (trace (fst (run_tick w s env))) = printed (trace s) @ outcome_lines w (ctx_done s) env"
    and "pc (fst (run_tick w s env)) = pc s"
    and "ctx_done (fst (run_tick w s env)) = (ctx_done s \<or> signal_during_export env)"
  using assms
  by (simp_all add: run_tick_def tick_def Let_def printed_append printed_simps printed_records
      printed_export_outcome)

lemma Second_sint: "sint Second = 1000000000"
  by (simp add: Second_def)

lemma step_first_quiet:
  "step worker1 init (Sleep_elapsed quiet_env)
     = Some \<lparr> pc = Selecting, ctx_done = False, ticker_ready = False,
              trace = [Tick_begins, Record_call ''metric-0000'' [(''a'', ''000000000'')],
                       Record_call ''metric-0000'' [(''a'', ''000000001'')], Collect_call,
                       Export_call 1000000000, Printf (Exported 1 ''service-0001'' 3),
                       NewTicker 10000000000] \<rparr>"
  by (simp add: worker1_def init_def quiet_env_def run_tick_def tick_def record_calls_def
      export_outcome_def is_DeadlineExceeded_def exportTimeout_def Second_def word_sle_eq)

lemma step_after_exit: "ended (pc s) \<Longrightarrow> step w s e = None"
  by (cases e) auto

lemma tick_exports:
  "Export_call d \<in> set (fst (tick w c env)) \<Longrightarrow> d = Second"
  by (auto simp add: tick_def Let_def export_outcome_def exportTimeout_def
      split: option.splits if_splits)

lemma run_tick_exports:
  assumes "\<forall>d. Export_call d \<in> set (trace s) \<longrightarrow> d = Second"
  shows "\<forall>d. Export_call d \<in> set (trace (fst (run_tick w s env))) \<longrightarrow> d = Second"
  using assms tick_exports [of _ w "ctx_done s" env]
  by (auto simp add: run_tick_def split_beta)

lemma step_exports:
  assumes "step w s e = Some s'" and "\<forall>d. Export_call d \<in> set (trace s) \<longrightarrow> d = Second"
  shows "\<forall>d. Export_call d \<in> set (trace s') \<longrightarrow> d = Second"
proof (cases e)
  case Signal
  with assms show ?thesis by (auto split: if_splits)
next
  case (Sleep_elapsed env)
  from run_tick_exports [OF assms(2), of w env] assms(1) show ?thesis
    unfolding Sleep_elapsed
    by (cases "run_tick w s env"; cases "snd (run_tick w s env)") (auto split: if_splits)
next
  case Ticker_fires
  with assms show ?thesis by (auto split: if_splits)
next
  case Main_returns
  with assms show ?thesis by (auto split: if_splits)
next
  case Select_done
  with assms show ?thesis by (auto split: if_splits)
next
  case (Select_ticker env)
  have "\<forall>d. Export_call d \<in> set (trace (s\<lparr>ticker_ready := False\<rparr>)) \<longrightarrow> d = Second"
    using assms(2) by simp
  from run_tick_exports [OF this, of w env] assms(1) show ?thesis
    unfolding Select_ticker
    by (cases "run_tick w (s\<lparr>ticker_ready := False\<rparr>) env";
        cases "snd (run_tick w (s\<lparr>ticker_ready := False\<rparr>) env)") (auto split: if_splits)
qed

lemma run_exports:
  "run w s es = Some s' \<Longrightarrow> \<forall>d. Export_call d \<in> set (trace s) \<longrightarrow> d = Second \<Longrightarrow>
   \<forall>d. Export_call d \<in> set (trace s') \<longrightarrow> d = Second"
proof (induction es arbitrary: s)
  case Nil
  then show ?case by simp
next
  case (Cons e es)
  from Cons.prems(1) obtain s1 where s1: "step w s e = Some s1" "run w s1 es = Some s'"
    by (auto split: option.splits)
  from step_exports [OF s1(1) Cons.prems(2)] Cons.IH [OF s1(2)] show ?case by blast
qed

lemma sint_go_quot_4:
  assumes "0 \<le> sint d"
  shows "sint (go_quot d 4) = sint d div 4"
proof -
  have lt: "sint d < 2 ^ 63" using sint_lt [of d] by simp
  have "sint (go_quot d 4) = signed_take_bit 63 (sint d div 4)"
    using assms by (simp add: go_quot_def sint_sbintrunc' sgn_if)
  also have "\<dots> = sint d div 4"
    using assms lt by (intro signed_take_bit_int_eq_self) auto
  finally show ?thesis .
qed

lemma word_eq_iff_sint: "(a :: go_int) = b \<longleftrightarrow> sint a = sint b"
  by (metis word_of_int_sint_self)

lemma deadline_vs_default:
  assumes "0 \<le>s d"
  shows "exportTimeout = spec_default_deadline d \<longleftrightarrow> d \<le>s 4000000003"
    and "exportTimeout_part_001 d = spec_default_deadline d \<longleftrightarrow> 4000000000 \<le>s d"
proof -
  have q: "sint (go_quot d 4) = sint d div 4"
    using assms by (intro sint_go_quot_4) (simp add: word_sle_eq)
  show "exportTimeout = spec_default_deadline d \<longleftrightarrow> d \<le>s 4000000003"
    using q by (simp add: exportTimeout_def spec_default_deadline_def go_max_def
        word_sless_alt word_sle_eq word_eq_iff_sint Second_sint) linarith
  show "exportTimeout_part_001 d = spec_default_deadline d \<longleftrightarrow> 4000000000 \<le>s d"
    using q by (simp add: exportTimeout_part_001_def spec_default_deadline_def go_max_def
        word_sless_alt word_sle_eq word_eq_iff_sint Second_sint) linarith
qed

section \<open>The per-service scheduler: claims\<close>

text \<open>
  Claim C3, as amended. Whenever a tick gets as far as its export, the result is handled
  without ending the worker, by the first of these cases that applies: a result that is a
  deadline-exceeded error is logged as a timeout, also when the signal has arrived in the
  meantime; otherwise, if the context is cancelled, nothing is logged; otherwise an error is
  logged as a failed export; otherwise success is logged, with \<open>len(gauges)\<close> as its count.
  After the tick the worker is neither exited nor stopped: it is in the \<open>select\<close> of its loop
  (for the first tick provided the interval is positive, as \<open>time.NewTicker\<close> requires).
\<close>

theorem C3_export_outcome:
  assumes "collect_err env = None"
    and "ev = Sleep_elapsed env \<or> ev = Select_ticker env"
    and "step w s ev = Some s'"
  shows "printed (trace s') = printed (trace s) @
           (if is_DeadlineExceeded (export_err env) then [Timeout_after Second (w_serviceName w)]
            else if ctx_done s \<or> signal_during_export env then []
            else case export_err env of
                   Some e \<Rightarrow> [Failed_to_export (w_serviceName w) e]
                 | None \<Rightarrow> [Exported (length (w_gauges w)) (w_serviceName w) (export_ms env)])
         \<and> pc s' \<noteq> Exited 1 \<and> pc s' \<noteq> Stopped
         \<and> (ev = Select_ticker env \<or> 0 <s w_interval w \<longrightarrow> pc s' = Selecting)"
proof -
  obtain s1 where rt: "run_tick w s env = (s1, Returned)"
    using run_tick_ok(1) [OF assms(1), of w s] by (cases "run_tick w s env") simp
  have p1: "printed (trace s1) = printed (trace s) @ outcome_lines w (ctx_done s) env"
    using run_tick_ok(2) [OF assms(1), of w s] rt by simp
  obtain s2 where rt2: "run_tick w (s\<lparr>ticker_ready := False\<rparr>) env = (s2, Returned)"
    using run_tick_ok(1) [OF assms(1), of w "s\<lparr>ticker_ready := False\<rparr>"]
    by (cases "run_tick w (s\<lparr>ticker_ready := False\<rparr>) env") simp
  have p2: "printed (trace s2) = printed (trace s) @ outcome_lines w (ctx_done s) env"
    and pc2: "pc s2 = pc s"
    using run_tick_ok(2,3) [OF assms(1), of w "s\<lparr>ticker_ready := False\<rparr>"] rt2 by simp_all
  from assms(2) show ?thesis
  proof
    assume ev: "ev = Sleep_elapsed env"
    with assms(3) rt p1 show ?thesis
      by (auto simp add: outcome_lines_def printed_append printed_def word_sle_eq word_sless_alt
          split: if_splits)
  next
    assume ev: "ev = Select_ticker env"
    with assms(3) rt2 p2 pc2 show ?thesis
      by (auto simp add: outcome_lines_def split: if_splits)
  qed
qed

text \<open>The first tick of \<open>worker1\<close>, all going well: one line, the success.\<close>

theorem C3_export_outcome_witness:
  "step worker1 init (Sleep_elapsed quiet_env)
     = Some \<lparr> pc = Selecting, ctx_done = False, ticker_ready = False,
              trace = [Tick_begins, Record_call ''metric-0000'' [(''a'', ''000000000'')],
                       Record_call ''metric-0000'' [(''a'', ''000000001'')], Collect_call,
                       Export_call 1000000000, Printf (Exported 1 ''service-0001'' 3),
                       NewTicker 10000000000] \<rparr>
   \<and> printed [Tick_begins, Record_call ''metric-0000'' [(''a'', ''000000000'')],
               Record_call ''metric-0000'' [(''a'', ''000000001'')], Collect_call,
               Export_call 1000000000, Printf (Exported 1 ''service-0001'' 3),
               NewTicker 10000000000]
       = [Exported 1 ''service-0001'' 3]"
proof -
  let ?s' = "\<lparr> pc = Selecting, ctx_done = False, ticker_ready = False,
              trace = [Tick_begins, Record_call ''metric-0000'' [(''a'', ''000000000'')],
                       Record_call ''metric-0000'' [(''a'', ''000000001'')], Collect_call,
                       Export_call 1000000000, Printf (Exported 1 ''service-0001'' 3),
                       NewTicker 10000000000] \<rparr>"
  have st: "step worker1 init (Sleep_elapsed quiet_env) = Some ?s'"
    by (rule step_first_quiet)
  have c: "collect_err quiet_env = None" by (simp add: quiet_env_def)
  have "printed (trace ?s') = printed (trace init) @
           (if is_DeadlineExceeded (export_err quiet_env) then [Timeout_after Second (w_serviceName worker1)]
            else if ctx_done init \<or> signal_during_export quiet_env then []
            else case export_err quiet_env of
                   Some e \<Rightarrow> [Failed_to_export (w_serviceName worker1) e]
                 | None \<Rightarrow> [Exported (length (w_gauges worker1)) (w_serviceName worker1) (export_ms quiet_env)])"
    using C3_export_outcome [OF c _ st] by blast
  then show ?thesis using st
    by (simp add: init_def quiet_env_def worker1_def is_DeadlineExceeded_def printed_def)
qed

text \<open>
  Claim C3 as stated fails where the export returns a deadline-exceeded error and the signal
  has arrived before the result is looked at: the timeout is logged although the context is
  cancelled, since \<open>errors.Is(err, context.DeadlineExceeded)\<close> is tested first. And the count
  in the success line is the number of gauges: one, for the two points of \<open>worker1\<close>.
\<close>

theorem C3_timeout_after_cancel_counterexample:
  "run worker1 init [Sleep_elapsed timeout_env]
     = Some \<lparr> pc = Selecting, ctx_done = True, ticker_ready = False,
              trace = [Tick_begins, Record_call ''metric-0000'' [(''a'', ''000000000'')],
                       Record_call ''metric-0000'' [(''a'', ''000000001'')], Collect_call,
                       Export_call 1000000000, Signalled,
                       Printf (Timeout_after 1000000000 ''service-0001''),
                       NewTicker 10000000000] \<rparr>
   \<and> length (record_calls (w_gauges worker1) (w_allAttributes worker1)) = 2
   \<and> printed (fst (tick worker1 False quiet_env)) = [Exported 1 ''service-0001'' 3]"
  by (simp add: worker1_def init_def quiet_env_def timeout_env_def run_tick_def tick_def
      record_calls_def export_outcome_def is_DeadlineExceeded_def exportTimeout_def Second_def
      word_sle_eq printed_def)

text \<open>
  Claim C4, at the input where the code departs from it. The signal arrives while the second
  service sleeps its offset; \<open>time.Sleep\<close> does not look at the context, and when it ends
  the first tick runs: a tick begins after the signal. The loop itself does observe the
  context: a signal that arrives while the worker waits in \<open>select\<close> stops it.
\<close>

theorem C4_first_tick_after_cancellation:
  "run worker1 init [Signal, Sleep_elapsed quiet_env]
     = Some \<lparr> pc = Selecting, ctx_done = True, ticker_ready = False,
              trace = [Signalled, Tick_begins,
                       Record_call ''metric-0000'' [(''a'', ''000000000'')],
                       Record_call ''metric-0000'' [(''a'', ''000000001'')], Collect_call,
                       Export_call 1000000000, NewTicker 10000000000] \<rparr>
   \<and> tick_after_signal [Signalled, Tick_begins,
                       Record_call ''metric-0000'' [(''a'', ''000000000'')],
                       Record_call ''metric-0000'' [(''a'', ''000000001'')], Collect_call,
                       Export_call 1000000000, NewTicker 10000000000]
   \<and> run worker1 init [Sleep_elapsed quiet_env, Signal, Select_done]
     = Some \<lparr> pc = Stopped, ctx_done = True, ticker_ready = False,
              trace = [Tick_begins, Record_call ''metric-0000'' [(''a'', ''000000000'')],
                       Record_call ''metric-0000'' [(''a'', ''000000001'')], Collect_call,
                       Export_call 1000000000, Printf (Exported 1 ''service-0001'' 3),
                       NewTicker 10000000000, Signalled, Ticker_Stop, Provider_Shutdown,
                       Exporter_Shutdown] \<rparr>"
  by (simp add: worker1_def init_def quiet_env_def run_tick_def tick_def
      record_calls_def export_outcome_def is_DeadlineExceeded_def exportTimeout_def Second_def
      word_sle_eq)

text \<open>
  Claim C10. A tick whose \<open>reader.Collect\<close> fails ends the process: after the records and the
  collection the failure is logged by \<open>log.Fatalf\<close>, the exit status is 1, no export is
  attempted and nothing can happen afterwards. A tick whose collection succeeds calls the
  exporter and never exits the process, whatever the export returns.
\<close>

theorem C10_collect_failure_fatal:
  assumes "ev = Sleep_elapsed env \<or> ev = Select_ticker env"
    and "step w s ev = Some s'"
  shows "(case collect_err env of
            Some err \<Rightarrow>
              pc s' = Exited 1
              \<and> trace s' = trace s @ Tick_begins
                   # map (\<lambda>(gauge, attributes). Record_call gauge attributes)
                       (record_calls (w_gauges w) (w_allAttributes w))
                   @ [Collect_call, Fatalf (Failed_to_collect (w_serviceName w) err)]
              \<and> (\<forall>e. step w s' e = None)
          | None \<Rightarrow> pc s' \<noteq> Exited 1 \<and> Export_call exportTimeout \<in> set (trace s'))"
proof (cases "collect_err env")
  case None
  from assms show ?thesis
    by (auto simp add: None run_tick_def tick_def Let_def split: if_splits)
next
  case (Some err)
  from assms have a: "pc s' = Exited 1
      \<and> trace s' = trace s @ Tick_begins
           # map (\<lambda>(gauge, attributes). Record_call gauge attributes)
               (record_calls (w_gauges w) (w_allAttributes w))
           @ [Collect_call, Fatalf (Failed_to_collect (w_serviceName w) err)]"
    by (auto simp add: Some run_tick_def tick_def Let_def split: if_splits)
  then have "step w s' e = None" for e by (simp add: step_after_exit)
  with a show ?thesis by (simp add: Some)
qed

text \<open>The first tick of \<open>worker1\<close> with a failing collection.\<close>

theorem C10_collect_failure_fatal_witness:
  "step worker1 init (Sleep_elapsed failing_env)
     = Some \<lparr> pc = Exited 1, ctx_done = False, ticker_ready = False,
              trace = [Tick_begins, Record_call ''metric-0000'' [(''a'', ''000000000'')],
                       Record_call ''metric-0000'' [(''a'', ''000000001'')], Collect_call,
                       Fatalf (Failed_to_collect ''service-0001'' (Other ''collect''))] \<rparr>
   \<and> step worker1 \<lparr> pc = Exited 1, ctx_done = False, ticker_ready = False,
              trace = [Tick_begins, Record_call ''metric-0000'' [(''a'', ''000000000'')],
                       Record_call ''metric-0000'' [(''a'', ''000000001'')], Collect_call,
                       Fatalf (Failed_to_collect ''service-0001'' (Other ''collect''))] \<rparr>
        Ticker_fires = None"
proof -
  let ?s' = "\<lparr> pc = Exited 1, ctx_done = False, ticker_ready = False,
              trace = [Tick_begins, Record_call ''metric-0000'' [(''a'', ''000000000'')],
                       Record_call ''metric-0000'' [(''a'', ''000000001'')], Collect_call,
                       Fatalf (Failed_to_collect ''service-0001'' (Other ''collect''))] \<rparr>"
  have st: "step worker1 init (Sleep_elapsed failing_env) = Some ?s'"
    by (simp add: worker1_def init_def failing_env_def run_tick_def tick_def record_calls_def)
  have "case collect_err failing_env of
            Some err \<Rightarrow>
              pc ?s' = Exited 1
              \<and> trace ?s' = trace init @ Tick_begins
                   # map (\<lambda>(gauge, attributes). Record_call gauge attributes)
                       (record_calls (w_gauges worker1) (w_allAttributes worker1))
                   @ [Collect_call, Fatalf (Failed_to_collect (w_serviceName worker1) err)]
              \<and> (\<forall>e. step worker1 ?s' e = None)
          | None \<Rightarrow> pc ?s' \<noteq> Exited 1 \<and> Export_call exportTimeout \<in> set (trace ?s')"
    using C10_collect_failure_fatal [OF _ st] by blast
  then have "step worker1 ?s' Ticker_fires = None" by (simp add: failing_env_def)
  with st show ?thesis by simp
qed

text \<open>
  Claim C6, as amended. The deadline of every export call is one second, whatever the
  interval; it is not configurable. For a non-negative interval this is the specification's
  default (a quarter of the interval, at least one second) exactly when the interval is at
  most 4 s (and 3 ns). The other version of the file uses a quarter of the interval, which
  is that default exactly when the interval is at least 4 s.
\<close>

theorem C6_fixed_export_deadline:
  "(run w init es = Some s \<longrightarrow> (\<forall>d. Export_call d \<in> set (trace s) \<longrightarrow> d = Second))
   \<and> exportTimeout = Second
   \<and> (0 \<le>s d \<longrightarrow> (exportTimeout = spec_default_deadline d \<longleftrightarrow> d \<le>s 4 * Second + 3))
   \<and> (0 \<le>s d \<longrightarrow> (exportTimeout_part_001 d = spec_default_deadline d \<longleftrightarrow> 4 * Second \<le>s d))"
proof -
  have "\<forall>d. Export_call d \<in> set (trace init) \<longrightarrow> d = Second" by (simp add: init_def)
  then have 1: "run w init es = Some s \<Longrightarrow> \<forall>d. Export_call d \<in> set (trace s) \<longrightarrow> d = Second"
    by (rule run_exports [rotated])
  have k: "4 * Second + 3 = (4000000003 :: Duration)" "4 * Second = (4000000000 :: Duration)"
    by (simp_all add: Second_def)
  show ?thesis using 1 deadline_vs_default [of d] by (simp add: k exportTimeout_def)
qed

text \<open>A run of \<open>worker1\<close>, an interval of 3 s, and an interval of 20 s for the other version.\<close>

theorem C6_fixed_export_deadline_witness:
  "run worker1 init [Sleep_elapsed quiet_env]
     = Some \<lparr> pc = Selecting, ctx_done = False, ticker_ready = False,
              trace = [Tick_begins, Record_call ''metric-0000'' [(''a'', ''000000000'')],
                       Record_call ''metric-0000'' [(''a'', ''000000001'')], Collect_call,
                       Export_call 1000000000, Printf (Exported 1 ''service-0001'' 3),
                       NewTicker 10000000000] \<rparr>
   \<and> (1000000000 :: Duration) = Second
   \<and> exportTimeout = spec_default_deadline (3 * Second)
   \<and> exportTimeout_part_001 (20 * Second) = spec_default_deadline (20 * Second)"
proof -
  let ?tr = "[Tick_begins, Record_call ''metric-0000'' [(''a'', ''000000000'')],
                       Record_call ''metric-0000'' [(''a'', ''000000001'')], Collect_call,
                       Export_call 1000000000, Printf (Exported 1 ''service-0001'' 3),
                       NewTicker 10000000000]"
  have r: "run worker1 init [Sleep_elapsed quiet_env]
      = Some \<lparr> pc = Selecting, ctx_done = False, ticker_ready = False, trace = ?tr \<rparr>"
    using step_first_quiet by simp
  have a: "0 \<le>s 3 * Second" "3 * Second \<le>s 4 * Second + 3"
    and b: "0 \<le>s 20 * Second" "4 * Second \<le>s 20 * Second"
    by (simp_all add: Second_def word_sle_eq)
  have "\<forall>d. Export_call d \<in> set ?tr \<longrightarrow> d = Second"
    using C6_fixed_export_deadline [of worker1 "[Sleep_elapsed quiet_env]" _ 0, THEN conjunct1] r
    by fastforce
  then have "(1000000000 :: Duration) = Second" by simp
  moreover have "exportTimeout = spec_default_deadline (3 * Second)"
    using C6_fixed_export_deadline [of worker1 "[]" init "3 * Second"] a by blast
  moreover have "exportTimeout_part_001 (20 * Second) = spec_default_deadline (20 * Second)"
    using C6_fixed_export_deadline [of worker1 "[]" init "20 * Second"] b by blast
  ultimately show ?thesis using r by blast
qed

text \<open>
  Claim C6 as stated fails in both versions: at an interval of 10 s the deadline is 1 s where
  the default would be 2.5 s, and in the other version an interval of 1 s gives 250 ms where
  the default would be 1 s.
\<close>

theorem C6_deadline_counterexample:
  "exportTimeout = 1000000000 \<and> spec_default_deadline (10 * Second) = 2500000000
   \<and> exportTimeout_part_001 (1 * Second) = 250000000
   \<and> spec_default_deadline (1 * Second) = 1000000000"
  by (simp add: exportTimeout_def exportTimeout_part_001_def spec_default_deadline_def
      go_max_def go_quot_def Second_def word_sless_alt)

section \<open>The stagger offset: auxiliary facts\<close>

lemma binade_bounds:
  assumes "x \<noteq> 0"
  shows "2 powr of_int (binade x) \<le> \<bar>x\<bar>" and "\<bar>x\<bar> < 2 powr of_int (binade x + 1)"
  using assms floor_log_eq_powr_iff [of "\<bar>x\<bar>" 2 "binade x"] by (simp_all add: binade_def)

lemma binade_eqI:
  assumes "2 powr of_int k \<le> \<bar>x\<bar>" and "\<bar>x\<bar> < 2 powr of_int (k + 1)"
  shows "binade x = k"
proof -
  have "0 < \<bar>x\<bar>" using assms(1) powr_gt_zero [of 2 "of_int k"] by linarith
  then show ?thesis
    using assms floor_log_eq_powr_iff [of "\<bar>x\<bar>" 2 k] by (simp add: binade_def)
qed

lemma binade_mono: "0 < x \<Longrightarrow> x \<le> y \<Longrightarrow> binade x \<le> binade y"
  by (simp add: binade_def floor_mono)

lemma rhe_of_int: "round_half_even (of_int k) = k"
  by (simp add: round_half_even_def)

lemma rhe_bounds:
  "of_int (round_half_even y) \<le> y + 1 / 2" "y - 1 / 2 \<le> of_int (round_half_even y)"
  by (auto simp add: round_half_even_def Let_def; linarith)+

lemma rhe_mono:
  assumes "y \<le> z"
  shows "round_half_even y \<le> round_half_even z"
proof -
  have fl: "\<lfloor>y\<rfloor> \<le> \<lfloor>z\<rfloor>" using assms by (rule floor_mono)
  show ?thesis
  proof (cases "\<lfloor>y\<rfloor> = \<lfloor>z\<rfloor>")
    case True
    then show ?thesis using assms
      by (auto simp add: round_half_even_def Let_def)
  next
    case False
    with fl have lt: "\<lfloor>y\<rfloor> + 1 \<le> \<lfloor>z\<rfloor>" by simp
    have "round_half_even y \<le> \<lfloor>y\<rfloor> + 1"
      by (auto simp add: round_half_even_def Let_def)
    moreover have "\<lfloor>z\<rfloor> \<le> round_half_even z"
      by (auto simp add: round_half_even_def Let_def)
    ultimately show ?thesis using lt by linarith
  qed
qed

lemma ulp32_pos: "0 < ulp32 x"
  by (simp add: ulp32_def)

lemma binade_ulp:
  "2 powr of_int (binade x) = 2 ^ 23 * ulp32 x"
  "2 powr of_int (binade x + 1) = 2 ^ 24 * ulp32 x"
  by (simp_all add: ulp32_def powr_diff powr_add)

lemma scaled_bounds:
  assumes "0 < x"
  shows "2 ^ 23 \<le> x / ulp32 x" and "x / ulp32 x < 2 ^ 24"
proof -
  let ?e = "binade x"
  have x: "2 powr of_int ?e \<le> x" "x < 2 powr of_int (?e + 1)"
    using binade_bounds [of x] assms by simp_all
  note a = binade_ulp(1) [of x] and b = binade_ulp(2) [of x]
  show "2 ^ 23 \<le> x / ulp32 x"
    using x(1) a ulp32_pos [of x] by (simp add: pos_le_divide_eq)
  show "x / ulp32 x < 2 ^ 24"
    using x(2) b ulp32_pos [of x] by (simp add: pos_divide_less_eq)
qed

lemma mantissa_bounds:
  assumes "0 < x"
  shows "2 ^ 23 \<le> round_half_even (x / ulp32 x)" and "round_half_even (x / ulp32 x) \<le> 2 ^ 24"
proof -
  have "round_half_even (of_int (2 ^ 23)) \<le> round_half_even (x / ulp32 x)"
    using scaled_bounds(1) [OF assms] by (intro rhe_mono) simp
  then show "2 ^ 23 \<le> round_half_even (x / ulp32 x)" by (simp only: rhe_of_int)
  have "round_half_even (x / ulp32 x) \<le> round_half_even (of_int (2 ^ 24))"
    using scaled_bounds(2) [OF assms] by (intro rhe_mono) simp
  then show "round_half_even (x / ulp32 x) \<le> 2 ^ 24" by (simp only: rhe_of_int)
qed

lemma round32_binade:
  assumes "0 < x"
  shows "2 powr of_int (binade x) \<le> round32 x" and "round32 x \<le> 2 powr of_int (binade x + 1)"
proof -
  let ?m = "round_half_even (x / ulp32 x)"
  have r: "round32 x = of_int ?m * ulp32 x" using assms by (simp add: round32_def)
  note a = binade_ulp(1) [of x] and b = binade_ulp(2) [of x]
  have "real_of_int (2 ^ 23) \<le> of_int ?m"
    using mantissa_bounds(1) [OF assms] by (simp only: of_int_le_iff)
  then have "(2::real) ^ 23 \<le> of_int ?m" by simp
  then show "2 powr of_int (binade x) \<le> round32 x"
    unfolding r a using ulp32_pos [of x] by (intro mult_right_mono) simp_all
  have "of_int ?m \<le> real_of_int (2 ^ 24)"
    using mantissa_bounds(2) [OF assms] by (simp only: of_int_le_iff)
  then have "of_int ?m \<le> (2::real) ^ 24" by simp
  then show "round32 x \<le> 2 powr of_int (binade x + 1)"
    unfolding r b using ulp32_pos [of x] by (intro mult_right_mono) simp_all
qed

lemma round32_nonneg: "0 \<le> x \<Longrightarrow> 0 \<le> round32 x"
proof (cases "x = 0")
  case True
  then show ?thesis by (simp add: round32_def)
next
  case False
  assume "0 \<le> x"
  with False have "0 < x" by simp
  from round32_binade(1) [OF this] show ?thesis
    using powr_gt_zero [of 2 "of_int (binade x)"] by linarith
qed

lemma round32_mono:
  assumes "0 \<le> x" and "x \<le> y"
  shows "round32 x \<le> round32 y"
proof (cases "x = 0")
  case True
  then show ?thesis using assms round32_nonneg [of y] by (simp add: round32_def)
next
  case False
  with assms have x: "0 < x" and y: "0 < y" by simp_all
  have le: "binade x \<le> binade y" using x assms(2) by (rule binade_mono)
  show ?thesis
  proof (cases "binade x = binade y")
    case True
    then have u: "ulp32 x = ulp32 y" by (simp add: ulp32_def)
    have "x / ulp32 y \<le> y / ulp32 y"
      using assms(2) ulp32_pos [of y] by (simp add: divide_right_mono)
    then have "round_half_even (x / ulp32 y) \<le> round_half_even (y / ulp32 y)"
      by (rule rhe_mono)
    then have "of_int (round_half_even (x / ulp32 y)) * ulp32 y
        \<le> of_int (round_half_even (y / ulp32 y)) * ulp32 y"
      using ulp32_pos [of y] by (intro mult_right_mono) simp_all
    then show ?thesis using x y u by (simp add: round32_def)
  next
    case False
    with le have "binade x + 1 \<le> binade y" by simp
    then have "(2::real) powr of_int (binade x + 1) \<le> 2 powr of_int (binade y)"
      by (intro powr_mono) simp_all
    then show ?thesis
      using round32_binade(2) [OF x] round32_binade(1) [OF y] by linarith
  qed
qed

lemma round32_upper:
  assumes "0 \<le> x"
  shows "round32 x \<le> x * rel32"
proof (cases "x = 0")
  case True
  then show ?thesis by (simp add: round32_def rel32_def)
next
  case False
  with assms have x: "0 < x" by simp
  let ?y = "x / ulp32 x"
  have "of_int (round_half_even ?y) \<le> ?y + 1 / 2" by (rule rhe_bounds)
  also have "\<dots> \<le> ?y + ?y / 2 ^ 24" using scaled_bounds(1) [OF x] by simp
  finally have "of_int (round_half_even ?y) * ulp32 x \<le> (?y + ?y / 2 ^ 24) * ulp32 x"
    using ulp32_pos [of x] by (intro mult_right_mono) simp_all
  also have "\<dots> = x * (1 + 1 / 2 ^ 24)"
    using ulp32_pos [of x] by (simp add: field_simps)
  finally show ?thesis using x by (simp add: round32_def rel32_def)
qed

lemma round32_eval:
  assumes "2 powr of_int k \<le> \<bar>x\<bar>" and "\<bar>x\<bar> < 2 powr of_int (k + 1)"
  shows "round32 x = of_int (round_half_even (x / 2 powr of_int (k - 23))) * 2 powr of_int (k - 23)"
proof -
  have "0 < \<bar>x\<bar>" using assms(1) powr_gt_zero [of 2 "of_int k"] by linarith
  then have x: "x \<noteq> 0" by simp
  have "binade x = k" using assms by (rule binade_eqI)
  then show ?thesis using x by (simp add: round32_def ulp32_def)
qed

lemma round32_exact_scaled:
  assumes "x / ulp32 x = of_int j"
  shows "round32 x = x"
proof (cases "x = 0")
  case True
  then show ?thesis by (simp add: round32_def)
next
  case False
  have "of_int (round_half_even (x / ulp32 x)) * ulp32 x = x / ulp32 x * ulp32 x"
    by (simp only: assms rhe_of_int)
  also have "\<dots> = x" using ulp32_pos [of x] by simp
  finally show ?thesis using False by (simp add: round32_def)
qed

lemma round32_exact_int:
  assumes "0 \<le> m" and "m \<le> 2 ^ 24"
  shows "round32 (of_int m) = of_int m"
proof (cases "m = 0")
  case True
  then show ?thesis by (simp add: round32_def)
next
  case False
  let ?x = "real_of_int m"
  let ?e = "binade ?x"
  have x: "0 < ?x" using assms(1) False by simp
  have "real_of_int m \<le> real_of_int (2 ^ 24)" using assms(2) by (simp only: of_int_le_iff)
  then have "?x \<le> 2 powr real_of_int 24" by simp
  with binade_bounds(1) [of ?x] x have "(2::real) powr real_of_int ?e \<le> 2 powr real_of_int 24"
    by linarith
  then have "real_of_int ?e \<le> real_of_int 24"
    using powr_le_cancel_iff [of 2 "real_of_int ?e" "real_of_int 24"] by fastforce
  then have e: "?e \<le> 24" by (simp only: of_int_le_iff)
  show ?thesis
  proof (cases "?e = 24")
    case True
    have "2 powr of_int ?e \<le> ?x" using binade_bounds(1) [of ?x] x by simp
    then have "(2::real) ^ 24 \<le> ?x" using True by simp
    then have "real_of_int (2 ^ 24) \<le> real_of_int m" by simp
    then have "2 ^ 24 \<le> m" by (simp only: of_int_le_iff)
    with assms(2) have m: "m = 2 ^ 24" by simp
    have "ulp32 ?x = 2" using True by (simp add: ulp32_def)
    then have "?x / ulp32 ?x = of_int (2 ^ 23)" using m by simp
    then show ?thesis by (rule round32_exact_scaled)
  next
    case False
    with e have e23: "?e \<le> 23" by simp
    define k where "k = nat (23 - ?e)"
    have "real_of_int (?e - 23) = - real k" using e23 by (simp add: k_def)
    then have "ulp32 ?x = 2 powr (- real k)" by (simp add: ulp32_def)
    also have "\<dots> = 1 / 2 ^ k" by (simp add: powr_minus powr_realpow divide_inverse)
    finally have "?x / ulp32 ?x = of_int (m * 2 ^ k)" by simp
    then show ?thesis by (rule round32_exact_scaled)
  qed
qed

lemma float32_of_int_zero: "float32_of_int 0 = 0"
  by (simp add: float32_of_int_def round32_def)

lemma float32_of_int_exact: "0 \<le> m \<Longrightarrow> m \<le> 2 ^ 24 \<Longrightarrow> float32_of_int m = of_int m"
  by (simp add: float32_of_int_def round32_exact_int)

lemma float32_of_int_mono: "0 \<le> a \<Longrightarrow> a \<le> b \<Longrightarrow> float32_of_int a \<le> float32_of_int b"
  by (simp add: float32_of_int_def round32_mono)

lemma float32_of_int_nonneg: "0 \<le> a \<Longrightarrow> 0 \<le> float32_of_int a"
  by (simp add: float32_of_int_def round32_nonneg)

lemma float32_of_int_ge_1: "1 \<le> n \<Longrightarrow> 1 \<le> float32_of_int n"
  using float32_of_int_mono [of 1 n] float32_of_int_exact [of 1] by simp

lemma float32_of_int_upper: "0 \<le> a \<Longrightarrow> float32_of_int a \<le> of_int a * rel32"
  by (simp add: float32_of_int_def round32_upper)

lemma offset_value_nonneg:
  assumes "0 \<le> I" "0 \<le> i" "1 \<le> n"
  shows "0 \<le> offset_value I i n"
  using assms float32_of_int_ge_1 [of n]
  by (simp add: offset_value_def div32_def mul32_def round32_nonneg float32_of_int_nonneg)

lemma offset_value_mono:
  assumes "0 \<le> I" "0 \<le> i" "i \<le> j" "1 \<le> n"
  shows "offset_value I i n \<le> offset_value I j n"
proof -
  let ?fI = "float32_of_int I" and ?fi = "float32_of_int i" and ?fj = "float32_of_int j"
    and ?fn = "float32_of_int n"
  have fI: "0 \<le> ?fI" and fi: "0 \<le> ?fi" and fn: "0 < ?fn"
    using assms float32_of_int_ge_1 [of n] by (simp_all add: float32_of_int_nonneg)
  have "?fi \<le> ?fj" using assms by (intro float32_of_int_mono)
  then have "?fI * ?fi \<le> ?fI * ?fj" using fI by (rule mult_left_mono)
  then have p: "mul32 ?fI ?fi \<le> mul32 ?fI ?fj"
    unfolding mul32_def using fI fi by (intro round32_mono) simp_all
  have "0 \<le> mul32 ?fI ?fi" unfolding mul32_def using fI fi by (intro round32_nonneg) simp
  then have "0 \<le> mul32 ?fI ?fi / ?fn" using fn by simp
  moreover have "mul32 ?fI ?fi / ?fn \<le> mul32 ?fI ?fj / ?fn"
    using p fn by (simp add: divide_right_mono)
  ultimately show ?thesis unfolding offset_value_def div32_def by (rule round32_mono)
qed

lemma offset_value_upper:
  assumes "0 \<le> I" "0 \<le> j" "1 \<le> n" "float32_of_int j \<le> c * float32_of_int n" "0 \<le> c"
  shows "offset_value I j n \<le> of_int I * c * rel32 ^ 3"
proof -
  let ?u = "rel32"
  let ?fI = "float32_of_int I" and ?fj = "float32_of_int j" and ?fn = "float32_of_int n"
  have fI: "0 \<le> ?fI" and fj: "0 \<le> ?fj" and fn: "0 < ?fn"
    using assms float32_of_int_ge_1 [of n] by (simp_all add: float32_of_int_nonneg)
  have u: "0 \<le> ?u" by (simp add: rel32_def)
  have "mul32 ?fI ?fj \<le> ?fI * ?fj * ?u"
    unfolding mul32_def using fI fj by (intro round32_upper) simp
  also have "\<dots> \<le> ?fI * (c * ?fn) * ?u"
    using assms(4) fI u by (intro mult_right_mono mult_left_mono) simp_all
  finally have "mul32 ?fI ?fj / ?fn \<le> ?fI * (c * ?fn) * ?u / ?fn"
    using fn by (intro divide_right_mono) simp_all
  also have "\<dots> = ?fI * c * ?u" using fn by simp
  also have "\<dots> \<le> of_int I * ?u * c * ?u"
    using float32_of_int_upper [OF assms(1)] assms(5) u
    by (intro mult_right_mono) simp_all
  finally have q: "mul32 ?fI ?fj / ?fn \<le> of_int I * c * ?u ^ 2"
    by (simp add: power2_eq_square mult_ac)
  have nn: "0 \<le> mul32 ?fI ?fj / ?fn"
    unfolding mul32_def using fI fj fn by (simp add: round32_nonneg)
  have "offset_value I j n \<le> mul32 ?fI ?fj / ?fn * ?u"
    unfolding offset_value_def div32_def using nn by (rule round32_upper)
  also have "\<dots> \<le> of_int I * c * ?u ^ 2 * ?u"
    using q u by (intro mult_right_mono) simp_all
  finally show ?thesis by (simp add: power3_eq_cube power2_eq_square mult_ac)
qed

lemma round32_eval_nat:
  assumes "23 \<le> k" and "2 ^ k \<le> \<bar>x\<bar>" and "\<bar>x\<bar> < 2 ^ Suc k"
  shows "round32 x = of_int (round_half_even (x / 2 ^ (k - 23))) * 2 ^ (k - 23)"
proof -
  have a: "(2::real) powr of_int (int k) = 2 ^ k" by (simp add: powr_realpow)
  have b: "(2::real) powr of_int (int k + 1) = 2 ^ Suc k"
    using powr_realpow [of 2 "Suc k"] by (simp add: add.commute)
  have c: "(2::real) powr of_int (int k - 23) = 2 ^ (k - 23)"
    using assms(1) powr_realpow [of 2 "k - 23"] by (simp add: of_nat_diff)
  show ?thesis
    using round32_eval [of "int k" x] assms(2,3) unfolding a b c by simp
qed

lemma rhe_numeral: "round_half_even (numeral w) = numeral w"
  using rhe_of_int [of "numeral w"] by simp

lemma round32_1e9: "round32 1000000000 = 1000000000"
  using round32_eval_nat [of 29 1000000000] by (simp add: rhe_numeral)

lemma round32_1e10: "round32 10000000000 = 10000000000"
  using round32_eval_nat [of 33 10000000000] by (simp add: rhe_numeral)

lemma round32_2p24_plus_1: "round32 16777217 = 16777216"
  using round32_eval_nat [of 24 16777217] by (simp add: round_half_even_def)

lemma round32_product: "round32 16777216000000000 = 16777216000000000"
  using round32_eval_nat [of 53 16777216000000000] by (simp add: rhe_numeral)

lemma round32_third: "round32 (10000000000 / 3) = 3333333248"
  using round32_eval_nat [of 31 "10000000000 / 3"] by (simp add: round_half_even_def)

lemma Duration_of_float32_nonneg:
  assumes "0 \<le> x" and "x < 2 ^ 63"
  shows "Duration_of_float32 x = Some (word_of_int \<lfloor>x\<rfloor>)"
    and "sint (word_of_int \<lfloor>x\<rfloor> :: Duration) = \<lfloor>x\<rfloor>"
proof -
  have f0: "0 \<le> \<lfloor>x\<rfloor>" using assms(1) by simp
  have "x < real_of_int (2 ^ 63)" using assms(2) by simp
  then have f1: "\<lfloor>x\<rfloor> < 2 ^ 63" by (simp only: floor_less_iff)
  show "Duration_of_float32 x = Some (word_of_int \<lfloor>x\<rfloor>)"
    using assms(1) f0 f1 by (simp add: Duration_of_float32_def truncate_def)
  have "sint (word_of_int \<lfloor>x\<rfloor> :: Duration) = signed_take_bit 63 \<lfloor>x\<rfloor>"
    by (simp add: sint_sbintrunc')
  also have "\<dots> = \<lfloor>x\<rfloor>" using f0 f1 by (intro signed_take_bit_int_eq_self) simp_all
  finally show "sint (word_of_int \<lfloor>x\<rfloor> :: Duration) = \<lfloor>x\<rfloor>" .
qed

lemma offset_unfold:
  "offset interval i services = Duration_of_float32 (offset_value (sint interval) (int i) (sint services))"
  by (simp add: offset_def offset_value_def)

lemma rel32_cube: "rel32 ^ 3 \<le> 1 + 1 / 2 ^ 22" "rel32 ^ 3 \<le> 2" "0 \<le> rel32"
  by (simp_all add: rel32_def power3_eq_cube)

lemma offset_in_range:
  assumes "0 \<le> I" "I < 2 ^ 62" "0 \<le> j" "j \<le> n" "1 \<le> n"
  shows "offset_value I j n < 2 ^ 63"
proof -
  have "float32_of_int j \<le> 1 * float32_of_int n"
    using assms float32_of_int_mono [of j n] by simp
  from offset_value_upper [OF assms(1) assms(3) assms(5) this]
  have "offset_value I j n \<le> of_int I * rel32 ^ 3" by simp
  also have "\<dots> \<le> of_int I * 2" using assms(1) rel32_cube(2) by (intro mult_left_mono) simp_all
  also have "\<dots> < 2 ^ 63"
  proof -
    have "real_of_int I < real_of_int (2 ^ 62)" using assms(2) by (simp only: of_int_less_iff)
    then show ?thesis by simp
  qed
  finally show ?thesis .
qed

lemma offset_last_less:
  assumes "0 < I" "1 \<le> n" "n \<le> 2 ^ 22"
  shows "offset_value I (n - 1) n < of_int I"
proof -
  have fn: "float32_of_int n = of_int n" using assms by (intro float32_of_int_exact) simp_all
  have fj: "float32_of_int (n - 1) = of_int (n - 1)"
    using assms by (intro float32_of_int_exact) simp_all
  have n: "0 < real_of_int n" using assms(2) by simp
  let ?c = "real_of_int (n - 1) / real_of_int n"
  have c: "0 \<le> ?c" using assms(2) by simp
  have "float32_of_int (n - 1) \<le> ?c * float32_of_int n" using n by (simp add: fn fj)
  from offset_value_upper [OF _ _ assms(2) this c]
  have "offset_value I (n - 1) n \<le> of_int I * ?c * rel32 ^ 3" using assms by simp
  also have "\<dots> \<le> of_int I * ?c * (1 + 1 / 2 ^ 22)"
  proof -
    have "0 \<le> real_of_int I" using assms(1) by simp
    then have "0 \<le> real_of_int I * ?c" using c by (rule mult_nonneg_nonneg)
    with rel32_cube(1) show ?thesis by (rule mult_left_mono)
  qed
  also have "\<dots> = of_int I * (?c * (1 + 1 / 2 ^ 22))" by simp
  also have "\<dots> < of_int I * 1"
  proof -
    have "real_of_int (n - 1) < 2 ^ 22"
    proof -
      have "real_of_int (n - 1) < real_of_int (2 ^ 22)"
        using assms(3) by (simp only: of_int_less_iff)
      then show ?thesis by simp
    qed
    then have "real_of_int (n - 1) * (1 + 1 / 2 ^ 22) < real_of_int n"
      by (simp add: algebra_simps)
    then have "?c * (1 + 1 / 2 ^ 22) < 1" using n by (simp add: pos_divide_less_eq)
    then show ?thesis using assms(1) by (intro mult_strict_left_mono) simp_all
  qed
  finally show ?thesis by simp
qed

lemma offset_zero: "offset interval 0 services = Some 0"
  by (simp add: offset_def float32_of_int_zero mul32_def div32_def round32_def
      Duration_of_float32_def truncate_def)

lemma offset_some:
  assumes "1 \<le>s services" and "0 \<le>s interval" and "sint interval < 2 ^ 62"
    and "int j \<le> sint services"
  shows "offset interval j services
           = Some (word_of_int \<lfloor>offset_value (sint interval) (int j) (sint services)\<rfloor>)"
    and "sint (word_of_int \<lfloor>offset_value (sint interval) (int j) (sint services)\<rfloor> :: Duration)
           = \<lfloor>offset_value (sint interval) (int j) (sint services)\<rfloor>"
proof -
  let ?v = "offset_value (sint interval) (int j) (sint services)"
  have n: "1 \<le> sint services" and I: "0 \<le> sint interval"
    using assms(1,2) by (simp_all add: word_sle_eq)
  have nn: "0 \<le> ?v" using I n by (intro offset_value_nonneg) simp_all
  have lt: "?v < 2 ^ 63" using I assms(3,4) n by (intro offset_in_range) simp_all
  show "offset interval j services = Some (word_of_int \<lfloor>?v\<rfloor>)"
    unfolding offset_unfold using nn lt by (rule Duration_of_float32_nonneg)
  show "sint (word_of_int \<lfloor>?v\<rfloor> :: Duration) = \<lfloor>?v\<rfloor>"
    using nn lt by (rule Duration_of_float32_nonneg)
qed

lemma offset_example: "offset (10 * Second) 1 3 = Some 3333333248"
proof -
  have a: "float32_of_int 10000000000 = 10000000000"
    using round32_1e10 by (simp add: float32_of_int_def)
  have b: "float32_of_int 1 = 1" "float32_of_int 3 = 3"
    using float32_of_int_exact [of 1] float32_of_int_exact [of 3] by simp_all
  have "offset_value 10000000000 1 3 = 3333333248"
    by (simp add: offset_value_def a b mul32_def div32_def round32_1e10 round32_third)
  then show ?thesis
    by (simp add: offset_unfold Second_def Duration_of_float32_def truncate_def)
qed

lemma round32_wrapped: "round32 (- 9223372036709551616) = - 9223372036854775808"
  using round32_eval_nat [of 62 "- 9223372036709551616"] by (simp add: round_half_even_def)

lemma round32_m2p63: "round32 (- 9223372036854775808) = - 9223372036854775808"
  using round32_eval_nat [of 63 "- 9223372036854775808"] by (simp add: round_half_even_def)

lemma round32_m2p62: "round32 (- 4611686018427387904) = - 4611686018427387904"
  using round32_eval_nat [of 62 "- 4611686018427387904"] by (simp add: round_half_even_def)

lemma interval_of_wrapping: "sint (interval_of (clamp wrapping_config)) = - 9223372036709551616"
  by (simp add: interval_of_def clamp_def wrapping_config_def go_max_def word_sless_alt Second_def)

section \<open>The stagger offset: claims\<close>

text \<open>
  Claim C5, as amended. The offset is \<open>interval \<times> serviceIndex / serviceCount\<close> evaluated in
  \<open>float32\<close> and cut to whole nanoseconds, not an integer division: for the second of three
  services and an interval of 10 s it is 3333333248 ns. For every service count \<open>n \<ge> 1\<close> and
  every interval from 0 to below \<open>2\<^sup>6\<^sup>2\<close> ns: the offset of service 0 is 0; the offsets of the
  services are non-negative and non-decreasing in the index; and the offset of the last
  service is below the interval when the interval is positive and \<open>n \<le> 2\<^sup>2\<^sup>2\<close>.
\<close>

theorem C5_offset_float32:
  assumes "1 \<le>s services" and "0 \<le>s interval" and "sint interval < 2 ^ 62"
    and "i \<le> j" and "int j < sint services"
  shows "offset interval 0 services = Some 0
         \<and> (\<exists>a b. offset interval i services = Some a \<and> offset interval j services = Some b
                \<and> 0 \<le>s a \<and> a \<le>s b)
         \<and> (0 <s interval \<and> sint services \<le> 2 ^ 22 \<longrightarrow>
              (\<exists>c. offset interval (nat (sint services) - 1) services = Some c \<and> c <s interval))
         \<and> offset (10 * Second) 1 3 = Some 3333333248"
proof -
  let ?I = "sint interval" and ?n = "sint services"
  have n: "1 \<le> ?n" and I: "0 \<le> ?I" using assms(1,2) by (simp_all add: word_sle_eq)
  have i: "int i \<le> ?n" and j: "int j \<le> ?n" using assms(4,5) by simp_all
  note oi = offset_some [OF assms(1,2,3) i] and oj = offset_some [OF assms(1,2,3) j]
  have "offset_value ?I (int i) ?n \<le> offset_value ?I (int j) ?n"
    using I assms(4) n by (intro offset_value_mono) simp_all
  then have le: "\<lfloor>offset_value ?I (int i) ?n\<rfloor> \<le> \<lfloor>offset_value ?I (int j) ?n\<rfloor>"
    by (rule floor_mono)
  have "0 \<le> offset_value ?I (int i) ?n" using I n by (intro offset_value_nonneg) simp_all
  then have ge: "0 \<le> \<lfloor>offset_value ?I (int i) ?n\<rfloor>" by simp
  have mono: "\<exists>a b. offset interval i services = Some a \<and> offset interval j services = Some b
      \<and> 0 \<le>s a \<and> a \<le>s b"
    using oi oj le ge by (simp add: word_sle_eq)
  have last: "\<exists>c. offset interval (nat ?n - 1) services = Some c \<and> c <s interval"
    if "0 <s interval" "?n \<le> 2 ^ 22"
  proof -
    have Ipos: "0 < ?I" using that(1) by (simp add: word_sless_alt)
    have k: "int (nat ?n - 1) = ?n - 1" using n by simp
    have kn: "int (nat ?n - 1) \<le> ?n" using n by simp
    note ok = offset_some [OF assms(1,2,3) kn, unfolded k]
    have "offset_value ?I (?n - 1) ?n < of_int ?I" using Ipos n that(2) by (rule offset_last_less)
    then have "\<lfloor>offset_value ?I (?n - 1) ?n\<rfloor> < ?I" by (simp only: floor_less_iff)
    then have "word_of_int \<lfloor>offset_value ?I (?n - 1) ?n\<rfloor> <s interval"
      using ok(2) by (simp only: word_sless_alt)
    with ok(1) show ?thesis by blast
  qed
  show ?thesis using offset_zero mono last offset_example by blast
qed

text \<open>Three services and an interval of 10 s.\<close>

theorem C5_offset_float32_witness:
  "offset (10 * Second) 0 3 = Some 0
   \<and> (\<exists>a b. offset (10 * Second) 1 3 = Some a \<and> offset (10 * Second) 2 3 = Some b
          \<and> 0 \<le>s a \<and> a \<le>s b)
   \<and> (\<exists>c. offset (10 * Second) 2 3 = Some c \<and> c <s 10 * Second)"
proof -
  have h: "1 \<le>s (3 :: go_int)" "0 \<le>s 10 * Second" "sint (10 * Second) < 2 ^ 62"
    "(1::nat) \<le> 2" "int 2 < sint (3 :: go_int)"
    "0 <s 10 * Second \<and> sint (3 :: go_int) \<le> 2 ^ 22"
    by (simp_all add: Second_def word_sle_eq word_sless_alt)
  have "nat (sint (3 :: go_int)) - 1 = 2" by simp
  with C5_offset_float32 [OF h(1-5)] h(6) show ?thesis by metis
qed

text \<open>
  Claim C5 as stated fails for large service counts and for intervals that wrap around.
  With \<open>2\<^sup>2\<^sup>4 + 1\<close> services, \<open>float32\<close> no longer tells the last index from the count, and the
  last offset is the whole interval. With an interval of 9223372037 s the product with
  \<open>time.Second\<close> wraps to a negative duration, and the offsets decrease.
\<close>

theorem C5_last_offset_counterexample:
  "offset Second 16777216 16777217 = Some Second
   \<and> sint (interval_of (clamp wrapping_config)) = - 9223372036709551616
   \<and> offset (interval_of (clamp wrapping_config)) 0 2 = Some 0
   \<and> map_option sint (offset (interval_of (clamp wrapping_config)) 1 2)
       = Some (- 4611686018427387904)"
proof -
  have a: "float32_of_int 1000000000 = 1000000000"
    using round32_1e9 by (simp add: float32_of_int_def)
  have b: "float32_of_int 16777216 = 16777216"
    using float32_of_int_exact [of 16777216] by simp
  have c: "float32_of_int 16777217 = 16777216"
    using round32_2p24_plus_1 by (simp add: float32_of_int_def)
  have "offset_value 1000000000 16777216 16777217 = 1000000000"
    by (simp add: offset_value_def a b c mul32_def div32_def round32_product round32_1e9)
  then have 1: "offset Second 16777216 16777217 = Some Second"
    by (simp add: offset_unfold Second_def Duration_of_float32_def truncate_def)
  have d: "float32_of_int (- 9223372036709551616) = - 9223372036854775808"
    using round32_wrapped by (simp add: float32_of_int_def)
  have e: "float32_of_int 1 = 1" "float32_of_int 2 = 2"
    using float32_of_int_exact [of 1] float32_of_int_exact [of 2] by simp_all
  have "offset_value (- 9223372036709551616) 1 2 = - 4611686018427387904"
    by (simp add: offset_value_def d e mul32_def div32_def round32_m2p63 round32_m2p62)
  then have 2: "map_option sint (offset (interval_of (clamp wrapping_config)) 1 2)
       = Some (- 4611686018427387904)"
    by (simp add: offset_unfold interval_of_wrapping Duration_of_float32_def truncate_def)
  show ?thesis using 1 2 interval_of_wrapping offset_zero by simp
qed

end
